theory Spec2Isabelle
  imports Complex_Main "HOL-Library.Word" "HOL-Library.Signed_Division" "HOL-Library.Monad_Syntax"
begin

chapter \<open>The embedding\<close>

section \<open>Numeric conventions\<close>

text \<open>
  The C++ sources compute with \<open>double\<close>, \<open>int\<close>, \<open>size_t\<close> and \<open>uchar\<close>.
  \<^item> A \<open>double\<close> is modelled as a \<open>real\<close>: rounding of the floating-point unit is not
    part of the model.
  \<^item> An \<open>int\<close> coordinate is modelled as an \<open>int\<close>; the conversions the sources write
    are modelled as they behave: \<open>static_cast<int>\<close> of a \<open>double\<close> truncates towards
    zero, \<open>/\<close> on \<open>int\<close> truncates towards zero (\<open>sdiv\<close>), and the narrowing of a
    \<open>size_t\<close> product into an \<open>int\<close> wraps modulo \<open>2 ^ 32\<close>.
  \<^item> A \<open>uchar\<close> is an \<open>8 word\<close>, a \<open>cv::Vec3b\<close> a triple of them.
  \<^item> A \<open>cv::Mat\<close> is a record of its dimensions and its cells; reading or writing a cell
    outside the dimensions is not defined in C++ and is the value \<open>None\<close> here.
\<close>

type_synonym uchar = "8 word"

type_synonym Vec3b = "uchar \<times> uchar \<times> uchar"

definition static_cast_int :: "real \<Rightarrow> int" where
  "static_cast_int x = (if 0 \<le> x then \<lfloor>x\<rfloor> else \<lceil>x\<rceil>)"

text \<open>Conversion of a \<open>double\<close> to \<open>uchar\<close> on assignment: the fraction is dropped.\<close>

definition uchar_of_double :: "real \<Rightarrow> uchar" where
  "uchar_of_double x = word_of_int (static_cast_int x)"

record 'a Mat =
  rows :: int
  cols :: int
  elems :: "int \<Rightarrow> int \<Rightarrow> 'a"

definition in_range :: "'a Mat \<Rightarrow> int \<Rightarrow> int \<Rightarrow> bool" where
  "in_range m r c = (0 \<le> r \<and> r < rows m \<and> 0 \<le> c \<and> c < cols m)"

text \<open>\<open>m.at<T>(r, c)\<close> as a read.\<close>

definition mat_at :: "'a Mat \<Rightarrow> int \<Rightarrow> int \<Rightarrow> 'a option" where
  "mat_at m r c = (if in_range m r c then Some (elems m r c) else None)"

text \<open>\<open>m.at<T>(r, c) = v\<close>.\<close>

definition mat_put :: "'a Mat \<Rightarrow> int \<Rightarrow> int \<Rightarrow> 'a \<Rightarrow> 'a Mat option" where
  "mat_put m r c v =
     (if in_range m r c then Some (m\<lparr>elems := (elems m)(r := (elems m r)(c := v))\<rparr>)
      else None)"

text \<open>\<open>Mat::zeros(rows, cols, type)\<close> and its like: a grid of one value.\<close>

definition mat_const :: "int \<Rightarrow> int \<Rightarrow> 'a \<Rightarrow> 'a Mat" where
  "mat_const r c v = \<lparr>rows = r, cols = c, elems = (\<lambda>_ _. v)\<rparr>"

text \<open>
  A counted loop \<open>for (k = a; k < b; ++k) body\<close> over a state; an iteration that fails
  ends the loop with \<open>None\<close>.
\<close>

function for_loop :: "int \<Rightarrow> int \<Rightarrow> (int \<Rightarrow> 's \<Rightarrow> 's option) \<Rightarrow> 's \<Rightarrow> 's option" where
  "for_loop k b body s =
     (if k < b then (case body k s of None \<Rightarrow> None | Some s' \<Rightarrow> for_loop (k + 1) b body s')
      else Some s)"
  by pat_completeness auto
termination
  by (relation "measure (\<lambda>(k, b, body, s). nat (b - k))") auto

declare for_loop.simps [simp del]

section \<open>Field math utilities (math.cpp)\<close>

text \<open>\<open>int relocate(double phys_coord, int interval_len)\<close>\<close>

definition relocate_double :: "real \<Rightarrow> int \<Rightarrow> int" where
  "relocate_double phys_coord interval_len =
     (let nearest = static_cast_int (phys_coord + 1 / 2) in
      if nearest < 0 then 0
      else if nearest \<ge> interval_len then interval_len - 1
      else nearest)"

text \<open>\<open>int relocate(int rounded_coord, int interval_len)\<close>\<close>

definition relocate_int :: "int \<Rightarrow> int \<Rightarrow> int" where
  "relocate_int rounded_coord interval_len =
     (if rounded_coord < 0 then 0
      else if rounded_coord \<ge> interval_len then interval_len - 1
      else rounded_coord)"

text \<open>\<open>double exp_fall_off(int rel_px, int len, double half, double lm1)\<close>\<close>

definition exp_fall_off :: "int \<Rightarrow> int \<Rightarrow> real \<Rightarrow> real \<Rightarrow> real" where
  "exp_fall_off rel_px len half lm1 =
     (if rel_px < 0 then 1 * exp (real_of_int rel_px / half)
      else if rel_px \<ge> len then 1 * exp ((lm1 - real_of_int rel_px) / half)
      else 1)"

text \<open>
  \<open>double relocate_and_compute_exp_falloff(int rel_px, int len, double half, double lm1,
  int &safe_rel_x)\<close>: the pair is the returned weight and the value left in
  \<open>safe_rel_x\<close>.
\<close>

definition relocate_and_compute_exp_falloff :: "int \<Rightarrow> int \<Rightarrow> real \<Rightarrow> real \<Rightarrow> real \<times> int" where
  "relocate_and_compute_exp_falloff rel_px len half lm1 =
     (if rel_px < 0 then (exp (real_of_int rel_px / half), 0)
      else if rel_px \<ge> len then (exp ((lm1 - real_of_int rel_px) / half), static_cast_int lm1)
      else (1, rel_px))"

text \<open>
  The signed distance of a coordinate outside \<open>[0, len)\<close> past the nearest pixel of the
  interval (pixel \<open>0\<close> below, pixel \<open>len - 1\<close> above), negative on both sides.
\<close>

definition excess :: "int \<Rightarrow> int \<Rightarrow> real" where
  "excess rel_px len =
     (if rel_px < 0 then real_of_int rel_px else real_of_int ((len - 1) - rel_px))"

section \<open>Lens and source (lens.h, lens.cpp)\<close>

record lensT =
  lens_origin :: "int \<times> int"
  lens_end_points :: "int \<times> int"
  lens_w :: int
  lens_h :: int
  alpha1 :: "real Mat"
  alpha2 :: "real Mat"
  kappa :: "real Mat"
  kappa8u :: "uchar Mat"
  cc_map :: "uchar Mat"
  caustic_map :: "uchar Mat"
  weight :: real

record sourceT =
  src_origin :: "int \<times> int"
  src_pos :: "int \<times> int"
  src_end_points :: "int \<times> int"
  src_w :: int
  src_h :: int
  imageRGB :: "Vec3b Mat"
  channels :: "uchar Mat \<times> uchar Mat \<times> uchar Mat"

text \<open>\<open>void lensT::move(int x_pos, int y_pos)\<close>\<close>

definition lens_move :: "lensT \<Rightarrow> int \<Rightarrow> int \<Rightarrow> lensT" where
  "lens_move l x_pos y_pos =
     (let o0 = x_pos - lens_w l sdiv 2;
          o1 = y_pos - lens_h l sdiv 2
      in l\<lparr>lens_origin := (o0, o1), lens_end_points := (o0 + lens_w l, o1 + lens_h l)\<rparr>)"

text \<open>\<open>bool lensT::contains(int x, int y)\<close>\<close>

definition lens_contains :: "lensT \<Rightarrow> int \<Rightarrow> int \<Rightarrow> bool" where
  "lens_contains l x y =
     (fst (lens_origin l) < x \<and> x < fst (lens_end_points l) \<and>
      snd (lens_origin l) < y \<and> y < snd (lens_end_points l))"

text \<open>
  \<open>void lensT::raytrace_pixel(int x1, int x2, int rel1_safe, int rel2_safe,
  double scale_fac, double &y1, double &y2)\<close>: the pair is \<open>(y1, y2)\<close>.
\<close>

definition raytrace_pixel :: "lensT \<Rightarrow> int \<Rightarrow> int \<Rightarrow> int \<Rightarrow> int \<Rightarrow> real \<Rightarrow> (real \<times> real) option" where
  "raytrace_pixel l x1 x2 rel1_safe rel2_safe scale_fac =
     (case mat_at (alpha1 l) rel2_safe rel1_safe of
        None \<Rightarrow> None
      | Some a1 \<Rightarrow>
          (case mat_at (alpha2 l) rel2_safe rel1_safe of
             None \<Rightarrow> None
           | Some a2 \<Rightarrow>
               Some (real_of_int x1 - a1 * scale_fac * weight l,
                     real_of_int x2 - a2 * scale_fac * weight l)))"

text \<open>\<open>void sourceT::move(int x_pos, int y_pos)\<close>\<close>

definition source_move :: "sourceT \<Rightarrow> int \<Rightarrow> int \<Rightarrow> sourceT" where
  "source_move s x_pos y_pos =
     (let o0 = x_pos - src_w s sdiv 2;
          o1 = y_pos - src_h s sdiv 2
      in s\<lparr>src_pos := (x_pos, y_pos), src_origin := (o0, o1),
            src_end_points := (o0 + src_w s, o1 + src_h s)\<rparr>)"

text \<open>\<open>cv::split\<close> of a three-channel image: channel \<open>c\<close> of every pixel.\<close>

definition split_channels :: "Vec3b Mat \<Rightarrow> uchar Mat \<times> uchar Mat \<times> uchar Mat" where
  "split_channels img =
     (\<lparr>rows = rows img, cols = cols img, elems = (\<lambda>r c. fst (elems img r c))\<rparr>,
      \<lparr>rows = rows img, cols = cols img, elems = (\<lambda>r c. fst (snd (elems img r c)))\<rparr>,
      \<lparr>rows = rows img, cols = cols img, elems = (\<lambda>r c. snd (snd (elems img r c)))\<rparr>)"

text \<open>
  \<open>sourceT::sourceT(Mat &imageRGB_, int x_pos, int y_pos)\<close>. The fields \<open>origin\<close>,
  \<open>pos\<close> and \<open>end_points\<close> start as \<open>{0, 0}\<close> (lens.h).
\<close>

definition sourceT_new :: "Vec3b Mat \<Rightarrow> int \<Rightarrow> int \<Rightarrow> sourceT" where
  "sourceT_new image_in x_pos y_pos =
     source_move
       \<lparr>src_origin = (0, 0), src_pos = (0, 0), src_end_points = (0, 0),
        src_w = cols image_in, src_h = rows image_in,
        imageRGB = image_in, channels = split_channels image_in\<rparr>
       x_pos y_pos"

text \<open>
  \<open>void sourceT::resize_area(double factor)\<close>. \<open>cv::resize\<close> is OpenCV's resampling
  filter; it is the parameter \<open>cv_resize\<close>, and nothing is assumed about it.
\<close>

definition resize_area :: "(Vec3b Mat \<Rightarrow> real \<Rightarrow> Vec3b Mat) \<Rightarrow> sourceT \<Rightarrow> real \<Rightarrow> sourceT" where
  "resize_area cv_resize s factor =
     (let orig_xpos = fst (src_origin s) + src_w s sdiv 2;
          orig_ypos = snd (src_origin s) + src_h s sdiv 2;
          w = static_cast_int (real_of_int (cols (imageRGB s)) * factor);
          h = static_cast_int (real_of_int (rows (imageRGB s)) * factor);
          s1 = s\<lparr>src_w := w, src_h := h\<rparr>;
          s2 = (if w > 0 \<and> h > 0
                then s1\<lparr>channels := split_channels (cv_resize (imageRGB s) factor)\<rparr>
                else s1)
      in source_move s2 orig_xpos orig_ypos)"

text \<open>\<open>bool sourceT::contains(double x_, double y_)\<close>\<close>

definition source_contains :: "sourceT \<Rightarrow> real \<Rightarrow> real \<Rightarrow> bool" where
  "source_contains s xd yd =
     (let x = static_cast_int xd;
          y = static_cast_int (yd + 1 / 2)
      in fst (src_origin s) < x \<and> x < fst (src_end_points s) \<and>
         snd (src_origin s) < y \<and> y < snd (src_end_points s))"

section \<open>Lens construction (lens.cpp)\<close>

text \<open>The cells of a grid in row-major order.\<close>

definition mat_values :: "'a Mat \<Rightarrow> 'a list" where
  "mat_values m = concat (map (\<lambda>r. map (\<lambda>c. elems m r c) [0..cols m - 1]) [0..rows m - 1])"

text \<open>\<open>m.convertTo(m, CV_64F)\<close> of a byte grid: every byte as the same number.\<close>

definition convert_to_double :: "uchar Mat \<Rightarrow> real Mat" where
  "convert_to_double m = \<lparr>rows = rows m, cols = cols m, elems = (\<lambda>r c. real (unat (elems m r c)))\<rparr>"

definition DBL_EPSILON :: real where
  "DBL_EPSILON = 1 / 2 ^ 52"

text \<open>
  \<open>cv::normalize(src, dst, a, b, cv::NORM_MINMAX)\<close> of OpenCV, which the constructor
  calls with \<open>a = 2\<close> and \<open>b = 0\<close>. As OpenCV documents and implements it, the
  range normalization takes the least and the greatest cell of the \<^emph>\<open>input\<close>
  (\<open>minMaxIdx\<close>), and scales and shifts every cell so that the least cell becomes
  \<open>min a b\<close> and the greatest \<open>max a b\<close>:
  \<open>scale = (dmax - dmin) * (smax - smin > DBL_EPSILON ? 1 / (smax - smin) : 0)\<close>,
  \<open>shift = dmin - smin * scale\<close>, \<open>dst = src * scale + shift\<close>.
  A grid without cells is left as it is.
\<close>

definition cv_normalize_minmax :: "real Mat \<Rightarrow> real \<Rightarrow> real \<Rightarrow> real Mat" where
  "cv_normalize_minmax src a b =
     (case mat_values src of
        [] \<Rightarrow> src
      | v # vs \<Rightarrow>
          (let smin = fold min vs v;
               smax = fold max vs v;
               dmin = min a b;
               dmax = max a b;
               scale = (dmax - dmin) * (if smax - smin > DBL_EPSILON then 1 / (smax - smin) else 0);
               shift = dmin - smin * scale
           in src\<lparr>elems := (\<lambda>r c. elems src r c * scale + shift)\<rparr>))"

text \<open>
  \<open>cvRound\<close> and \<open>cv::saturate_cast<uchar>\<close> of OpenCV, which \<open>convertTo(CV_8U)\<close>
  applies to every cell: round to the nearest integer, a tie to the even one, then
  clamp into \<open>0..255\<close>.
\<close>

definition cvRound :: "real \<Rightarrow> int" where
  "cvRound x =
     (let f = \<lfloor>x\<rfloor>; d = x - real_of_int f
      in if d < 1 / 2 then f else if d > 1 / 2 then f + 1 else if even f then f else f + 1)"

definition saturate_cast_uchar :: "real \<Rightarrow> uchar" where
  "saturate_cast_uchar x =
     (let r = cvRound x in if r < 0 then 0 else if r > 255 then 255 else word_of_int r)"

text \<open>
  The display version of a \<open>double\<close> convergence grid: \<open>cv::log\<close>, \<open>+= 2.5\<close>,
  \<open>*= 70\<close>, \<open>convertTo(kappa8u, CV_8U)\<close>, cell by cell. OpenCV leaves the output of
  \<open>cv::log\<close> on a cell that is not positive undefined, and the call returns all the
  same: the byte that such a cell ends as is the parameter \<open>log_undefined\<close>, a function of
  the cell, and nothing is assumed about it.
\<close>

definition log_display :: "(real \<Rightarrow> uchar) \<Rightarrow> real Mat \<Rightarrow> uchar Mat" where
  "log_display log_undefined m =
     \<lparr>rows = rows m, cols = cols m,
      elems = (\<lambda>r c. let v = elems m r c
                      in if 0 < v then saturate_cast_uchar ((ln v + 5 / 2) * 70)
                         else log_undefined v)\<rparr>"

text \<open>The input of the constructor by its depth: \<open>kappa_in.depth() == CV_8U\<close> or not.\<close>

datatype kappa_input = CV_8U "uchar Mat" | CV_64F "real Mat"

definition input_cols :: "kappa_input \<Rightarrow> int" where
  "input_cols k = (case k of CV_8U m \<Rightarrow> cols m | CV_64F m \<Rightarrow> cols m)"

definition input_rows :: "kappa_input \<Rightarrow> int" where
  "input_rows k = (case k of CV_8U m \<Rightarrow> rows m | CV_64F m \<Rightarrow> rows m)"

text \<open>
  \<open>lensT::lensT(Mat &kappa_in, int x, int y)\<close>. The members start as lens.h declares
  them (\<open>origin\<close> and \<open>end_points\<close> \<open>{0, 0}\<close>, \<open>weight\<close> \<open>1.\<close>, the grids empty).
  The last three calls of the constructor (\<open>compute_psi_from_kappa\<close>,
  \<open>compute_derivatives_from_psi\<close>, \<open>update_cc_and_caustics\<close>) run OpenCV's Fourier
  transform, blur and contour routines and write only the potential, the deflection,
  the shear and the two curve maps; what they leave in \<open>alpha1\<close>, \<open>alpha2\<close>,
  \<open>cc_map\<close> and \<open>caustic_map\<close> is the parameter \<open>derive\<close>, a function of the
  convergence grid, and nothing is assumed about it. The constructor has no failure
  path: it returns a lens for every input.
\<close>

definition lensT_new ::
  "(real \<Rightarrow> uchar) \<Rightarrow> (real Mat \<Rightarrow> real Mat \<times> real Mat \<times> uchar Mat \<times> uchar Mat) \<Rightarrow>
     kappa_input \<Rightarrow> int \<Rightarrow> int \<Rightarrow> lensT" where
  "lensT_new log_undefined derive kappa_in x y =
     (let l0 = \<lparr>lens_origin = (0, 0), lens_end_points = (0, 0),
                lens_w = input_cols kappa_in, lens_h = input_rows kappa_in,
                alpha1 = mat_const 0 0 0, alpha2 = mat_const 0 0 0,
                kappa = mat_const 0 0 0, kappa8u = mat_const 0 0 0,
                cc_map = mat_const 0 0 0, caustic_map = mat_const 0 0 0, weight = 1\<rparr>;
          l1 = lens_move l0 x y;
          l2 = (case kappa_in of
                  CV_8U m \<Rightarrow> l1\<lparr>kappa8u := m, kappa := cv_normalize_minmax (convert_to_double m) 2 0\<rparr>
                | CV_64F m \<Rightarrow> l1\<lparr>kappa := m, kappa8u := log_display log_undefined m\<rparr>)
      in case derive (kappa l2) of
           (a1, a2, cc, ca) \<Rightarrow> l2\<lparr>alpha1 := a1, alpha2 := a2, cc_map := cc, caustic_map := ca\<rparr>)"

text \<open>
  The geometry the sources maintain: the end points are the origin plus the size, and
  the origin is the centre minus half the size, in the integer division of C++.
\<close>

definition lens_geometry :: "lensT \<Rightarrow> int \<Rightarrow> int \<Rightarrow> bool" where
  "lens_geometry l cx cy =
     (lens_end_points l = (fst (lens_origin l) + lens_w l, snd (lens_origin l) + lens_h l)
      \<and> lens_origin l = (cx - lens_w l sdiv 2, cy - lens_h l sdiv 2))"

definition source_geometry :: "sourceT \<Rightarrow> int \<Rightarrow> int \<Rightarrow> bool" where
  "source_geometry s cx cy =
     (src_end_points s = (fst (src_origin s) + src_w s, snd (src_origin s) + src_h s)
      \<and> src_origin s = (cx - src_w s sdiv 2, cy - src_h s sdiv 2)
      \<and> src_pos s = (cx, cy))"

text \<open>Values for the examples.\<close>

definition lens_demo :: lensT where
  "lens_demo =
     \<lparr>lens_origin = (0, 0), lens_end_points = (2, 2), lens_w = 2, lens_h = 2,
      alpha1 = \<lparr>rows = 2, cols = 2, elems = (\<lambda>r c. real_of_int (r + 2 * c))\<rparr>,
      alpha2 = \<lparr>rows = 2, cols = 2, elems = (\<lambda>r c. real_of_int (r - c))\<rparr>,
      kappa = mat_const 2 2 0, kappa8u = mat_const 2 2 0,
      cc_map = mat_const 2 2 0, caustic_map = mat_const 2 2 0, weight = 1\<rparr>"

definition bytes_0_100 :: "uchar Mat" where
  "bytes_0_100 = \<lparr>rows = 1, cols = 2, elems = (\<lambda>r c. if c = 0 then 0 else 100)\<rparr>"

definition zeros_7_5 :: "real Mat" where
  "zeros_7_5 = mat_const 7 5 0"

definition bytes_255 :: "uchar Mat" where
  "bytes_255 = \<lparr>rows = 1, cols = 2, elems = (\<lambda>r c. 255)\<rparr>"

definition image_demo :: "Vec3b Mat" where
  "image_demo = \<lparr>rows = 6, cols = 9, elems = (\<lambda>r c. (word_of_int r, word_of_int c, 7))\<rparr>"

section \<open>Sampling of the source (lens.cpp)\<close>

text \<open>
  The body of the channel loop of \<open>get_linear_interpolated_pixel\<close> for one channel: the
  four reads and the weighted sum, stored into a \<open>uchar\<close>.
\<close>

definition interpolate_channel ::
  "uchar Mat \<Rightarrow> int \<Rightarrow> int \<Rightarrow> int \<Rightarrow> int \<Rightarrow> real \<Rightarrow> real \<Rightarrow> real \<Rightarrow> real \<Rightarrow> uchar option" where
  "interpolate_channel ch low1 low2 up1 up2 c00 c01 c10 c11 =
     (case mat_at ch low2 low1 of
        None \<Rightarrow> None
      | Some I00 \<Rightarrow>
     (case mat_at ch low2 up1 of
        None \<Rightarrow> None
      | Some I01 \<Rightarrow>
     (case mat_at ch up2 low1 of
        None \<Rightarrow> None
      | Some I10 \<Rightarrow>
     (case mat_at ch up2 up1 of
        None \<Rightarrow> None
      | Some I11 \<Rightarrow>
          Some (uchar_of_double
                  (real (unat I00) * c00 + real (unat I01) * c01
                   + real (unat I10) * c10 + real (unat I11) * c11))))))"

text \<open>
  \<open>cv::Vec3b sourceT::get_linear_interpolated_pixel(double beta1, double beta2)\<close>.
  The four indices are \<open>unsigned\<close> in the source; a negative result of \<open>relocate\<close>
  (possible only for a size below \<open>1\<close>) is out of range as an \<open>int\<close> and as an
  \<open>unsigned\<close> alike.
\<close>

definition get_linear_interpolated_pixel :: "sourceT \<Rightarrow> real \<Rightarrow> real \<Rightarrow> Vec3b option" where
  "get_linear_interpolated_pixel s beta1 beta2 =
     (if \<not> source_contains s beta1 beta2 then Some (0, 0, 0)
      else
        (let rel_beta1 = beta1 - real_of_int (fst (src_origin s));
             rel_beta2 = beta2 - real_of_int (snd (src_origin s));
             fl1 = real_of_int \<lfloor>rel_beta1\<rfloor>;
             fl2 = real_of_int \<lfloor>rel_beta2\<rfloor>;
             low1 = relocate_double fl1 (src_w s);
             low2 = relocate_double fl2 (src_h s);
             up1 = relocate_double (fl1 + 1) (src_w s);
             up2 = relocate_double (fl2 + 1) (src_h s);
             x = rel_beta1 - fl1;
             y = rel_beta2 - fl2;
             xy = x * y;
             c00 = 1 - x - y + xy;
             c01 = x - xy;
             c10 = y - xy;
             c11 = xy
         in case channels s of
              (ch0, ch1, ch2) \<Rightarrow>
                (case interpolate_channel ch0 low1 low2 up1 up2 c00 c01 c10 c11 of
                   None \<Rightarrow> None
                 | Some v0 \<Rightarrow>
                (case interpolate_channel ch1 low1 low2 up1 up2 c00 c01 c10 c11 of
                   None \<Rightarrow> None
                 | Some v1 \<Rightarrow>
                (case interpolate_channel ch2 low1 low2 up1 up2 c00 c01 c10 c11 of
                   None \<Rightarrow> None
                 | Some v2 \<Rightarrow> Some (v0, v1, v2))))))"

text \<open>
  Bilinear interpolation as the specification writes it, over a pixel function \<open>I\<close>
  (row, then column): \<open>I00 (1 - x) (1 - y) + I01 x (1 - y) + I10 (1 - x) y + I11 x y\<close>
  with \<open>x\<close> and \<open>y\<close> the fractional parts of the coordinate.
\<close>

definition bilinear :: "(int \<Rightarrow> int \<Rightarrow> real) \<Rightarrow> real \<Rightarrow> real \<Rightarrow> real" where
  "bilinear I u v =
     (let x = frac u; y = frac v; j = \<lfloor>u\<rfloor>; i = \<lfloor>v\<rfloor>
      in I i j * (1 - x) * (1 - y) + I i (j + 1) * x * (1 - y)
         + I (i + 1) j * (1 - x) * y + I (i + 1) (j + 1) * x * y)"

text \<open>The pixel of a channel at a row and a column, each clamped into the source.\<close>

definition clamped_pixel :: "sourceT \<Rightarrow> uchar Mat \<Rightarrow> int \<Rightarrow> int \<Rightarrow> real" where
  "clamped_pixel s ch i j = real (unat (elems ch (relocate_int i (src_h s)) (relocate_int j (src_w s))))"

text \<open>
  A source whose end points are its origin plus its size and whose channel grids are at
  least as large as the size.
\<close>

definition channel_covers :: "sourceT \<Rightarrow> uchar Mat \<Rightarrow> bool" where
  "channel_covers s ch = (src_h s \<le> rows ch \<and> src_w s \<le> cols ch)"

definition source_wf :: "sourceT \<Rightarrow> bool" where
  "source_wf s =
     (src_end_points s = (fst (src_origin s) + src_w s, snd (src_origin s) + src_h s)
      \<and> channel_covers s (fst (channels s))
      \<and> channel_covers s (fst (snd (channels s)))
      \<and> channel_covers s (snd (snd (channels s))))"

text \<open>The mean of two bytes with the fraction dropped, as a byte.\<close>

definition half_sum :: "uchar \<Rightarrow> uchar \<Rightarrow> uchar" where
  "half_sum a b = word_of_nat ((unat a + unat b) div 2)"

definition source_demo :: sourceT where
  "source_demo = sourceT_new image_demo 10 20"

section \<open>Shifts and derivatives (math.cpp)\<close>

datatype Direction = ShiftUp | ShiftRight | ShiftDown | ShiftLeft

text \<open>
  \<open>cv::Rect(x, y, width, height)\<close> and the region of interest \<open>m(rect)\<close>, which OpenCV
  refuses (an exception) unless the rectangle lies in the grid.
\<close>

record Rect =
  rect_x :: int
  rect_y :: int
  rect_width :: int
  rect_height :: int

definition rect_ok :: "'a Mat \<Rightarrow> Rect \<Rightarrow> bool" where
  "rect_ok m q =
     (0 \<le> rect_x q \<and> 0 \<le> rect_width q \<and> rect_x q + rect_width q \<le> cols m
      \<and> 0 \<le> rect_y q \<and> 0 \<le> rect_height q \<and> rect_y q + rect_height q \<le> rows m)"

definition in_rect :: "Rect \<Rightarrow> int \<Rightarrow> int \<Rightarrow> bool" where
  "in_rect q r c =
     (rect_y q \<le> r \<and> r < rect_y q + rect_height q \<and> rect_x q \<le> c \<and> c < rect_x q + rect_width q)"

text \<open>\<open>src(from).copyTo(dst(to))\<close> for two rectangles of one size: the new \<open>dst\<close>.\<close>

definition copy_rect :: "'a Mat \<Rightarrow> Rect \<Rightarrow> 'a Mat \<Rightarrow> Rect \<Rightarrow> 'a Mat option" where
  "copy_rect src from dst to =
     (if rect_ok src from \<and> rect_ok dst to
      then Some (dst\<lparr>elems := (\<lambda>r c.
                   if in_rect to r c
                   then elems src (r - rect_y to + rect_y from) (c - rect_x to + rect_x from)
                   else elems dst r c)\<rparr>)
      else None)"

text \<open>\<open>Mat translateImg(Mat f, int N, Direction direction)\<close>\<close>

definition translateImg :: "real Mat \<Rightarrow> int \<Rightarrow> Direction \<Rightarrow> real Mat option" where
  "translateImg f N direction =
     (let tmp = mat_const (rows f) (cols f) 0 in
      case direction of
        ShiftUp \<Rightarrow>
          copy_rect f \<lparr>rect_x = 0, rect_y = N, rect_width = cols f, rect_height = rows f - N\<rparr>
            tmp \<lparr>rect_x = 0, rect_y = 0, rect_width = cols tmp, rect_height = rows tmp - N\<rparr>
      | ShiftLeft \<Rightarrow>
          copy_rect f \<lparr>rect_x = 0, rect_y = 0, rect_width = cols f - N, rect_height = rows f\<rparr>
            tmp \<lparr>rect_x = N, rect_y = 0, rect_width = cols f - N, rect_height = rows f\<rparr>
      | ShiftDown \<Rightarrow>
          copy_rect f \<lparr>rect_x = 0, rect_y = 0, rect_width = cols f, rect_height = rows f - N\<rparr>
            tmp \<lparr>rect_x = 0, rect_y = N, rect_width = cols f, rect_height = rows f - N\<rparr>
      | ShiftRight \<Rightarrow>
          copy_rect f \<lparr>rect_x = N, rect_y = 0, rect_width = cols f - N, rect_height = rows f\<rparr>
            tmp \<lparr>rect_x = 0, rect_y = 0, rect_width = cols f - N, rect_height = rows f\<rparr>)"

text \<open>The matrix expression \<open>(a - b) / 2.0\<close>, cell by cell.\<close>

definition half_difference :: "real Mat \<Rightarrow> real Mat \<Rightarrow> real Mat" where
  "half_difference a b =
     \<lparr>rows = rows a, cols = cols a, elems = (\<lambda>r c. (elems a r c - elems b r c) / 2)\<rparr>"

text \<open>The body of the border loop of \<open>deriv_x\<close> for the row \<open>i\<close>.\<close>

definition deriv_x_border :: "int \<Rightarrow> real Mat \<Rightarrow> real Mat option" where
  "deriv_x_border i result =
     do {
       let N_c = cols result;
       border1 \<leftarrow> mat_at result i 2;
       border2 \<leftarrow> mat_at result i (N_c - 3);
       r1 \<leftarrow> mat_put result i 0 border1;
       r2 \<leftarrow> mat_put r1 i 1 border1;
       r3 \<leftarrow> mat_put r2 i (N_c - 1) border2;
       mat_put r3 i (N_c - 2) border2
     }"

text \<open>\<open>void deriv_x(Mat &input, Mat &result)\<close>: the new \<open>result\<close>.\<close>

definition deriv_x :: "real Mat \<Rightarrow> real Mat option" where
  "deriv_x input =
     do {
       xp1 \<leftarrow> translateImg input 1 ShiftRight;
       xm1 \<leftarrow> translateImg input 1 ShiftLeft;
       let result = half_difference xp1 xm1;
       for_loop 0 (rows result) deriv_x_border result
     }"

text \<open>The body of the border loop of \<open>deriv_y\<close> for the column \<open>i\<close>.\<close>

definition deriv_y_border :: "int \<Rightarrow> real Mat \<Rightarrow> real Mat option" where
  "deriv_y_border i result =
     do {
       let N_r = rows result;
       border1 \<leftarrow> mat_at result 2 i;
       border2 \<leftarrow> mat_at result (N_r - 3) i;
       r1 \<leftarrow> mat_put result 0 i border1;
       r2 \<leftarrow> mat_put r1 1 i border1;
       r3 \<leftarrow> mat_put r2 (N_r - 1) i border2;
       mat_put r3 (N_r - 2) i border2
     }"

text \<open>\<open>void deriv_y(Mat &input, Mat &result)\<close>: the new \<open>result\<close>.\<close>

definition deriv_y :: "real Mat \<Rightarrow> real Mat option" where
  "deriv_y input =
     do {
       yp1 \<leftarrow> translateImg input 1 ShiftUp;
       ym1 \<leftarrow> translateImg input 1 ShiftDown;
       let result = half_difference yp1 ym1;
       for_loop 0 (cols result) deriv_y_border result
     }"

text \<open>
  The central differences of a grid from its own cells, and the index of the nearest
  cell that is at least two away from both edges of an axis of length \<open>n\<close>.
\<close>

definition central_x :: "real Mat \<Rightarrow> int \<Rightarrow> int \<Rightarrow> real" where
  "central_x m r c = (elems m r (c + 1) - elems m r (c - 1)) / 2"

definition central_y :: "real Mat \<Rightarrow> int \<Rightarrow> int \<Rightarrow> real" where
  "central_y m r c = (elems m (r + 1) c - elems m (r - 1) c) / 2"

definition nearest_interior :: "int \<Rightarrow> int \<Rightarrow> int" where
  "nearest_interior n k = (if k < 2 then 2 else if k > n - 3 then n - 3 else k)"

definition grid_demo :: "real Mat" where
  "grid_demo = \<lparr>rows = 5, cols = 6, elems = (\<lambda>r c. real_of_int (r * r + c * c * c))\<rparr>"

section \<open>The Green's function kernel (math.cpp)\<close>

text \<open>
  The conversions of \<open>fill_green_fct\<close>. Its counters \<open>i\<close>, \<open>j\<close> and the sizes are
  \<open>size_t\<close> (64 bits, never negative; they are \<open>int\<close>s that stay in \<open>0 .. 2 ^ 31\<close> here),
  but \<open>int i_sq = i * i\<close> narrows the product to 32 bits, and \<open>i_sq + j * j\<close> is a
  \<open>size_t\<close> again, so a negative \<open>i_sq\<close> wraps modulo \<open>2 ^ 64\<close>.
\<close>

definition size_t_to_int :: "int \<Rightarrow> int" where
  "size_t_to_int n = (n + 2 ^ 31) mod 2 ^ 32 - 2 ^ 31"

definition int_to_size_t :: "int \<Rightarrow> int" where
  "int_to_size_t k = k mod 2 ^ 64"

text \<open>
  The value \<open>val\<close> of the inner loop for the offsets \<open>i\<close> and \<open>j\<close>. (\<open>log\<close> of \<open>0\<close>,
  which the C library makes \<open>-inf\<close>, is \<open>ln 0\<close> here; it can only arise after \<open>i_sq\<close>
  has wrapped.)
\<close>

definition green_val :: "int \<Rightarrow> int \<Rightarrow> real" where
  "green_val i j =
     (let factor = 1 / pi;
          i_sq = size_t_to_int (i * i)
      in if i = 0 \<and> j = 0 then - 14658711977588554 / 10000000000000000
         else factor * ln (sqrt (real_of_int (int_to_size_t (int_to_size_t i_sq + j * j)))))"

text \<open>The body of the inner loop: up to four writes of \<open>val\<close>.\<close>

definition green_cell :: "int \<Rightarrow> int \<Rightarrow> int \<Rightarrow> int \<Rightarrow> real Mat \<Rightarrow> real Mat option" where
  "green_cell X Y i j green_fct =
     do {
       let Ymi = Y - i;
       let Xmj = X - j;
       let val = green_val i j;
       g1 \<leftarrow> mat_put green_fct i j val;
       g2 \<leftarrow> (if i \<noteq> 0
              then do {
                     g \<leftarrow> mat_put g1 Ymi j val;
                     if j \<noteq> 0 then mat_put g Ymi Xmj val else Some g
                   }
              else Some g1);
       if j \<noteq> 0 then mat_put g2 i Xmj val else Some g2
     }"

text \<open>\<open>void fill_green_fct(Mat &green_fct)\<close>: the filled grid.\<close>

definition fill_green_fct :: "real Mat \<Rightarrow> real Mat option" where
  "fill_green_fct green_fct =
     (let X = cols green_fct;
          Y = rows green_fct;
          X2 = X div 2;
          Y2 = Y div 2
      in for_loop 0 (Y2 + 1)
           (\<lambda>i g. for_loop 0 (X2 + 1) (\<lambda>j g'. green_cell X Y i j g') g)
           green_fct)"

text \<open>
  The offset of an index from the origin of the kernel along an axis of length \<open>n\<close>,
  wrapped around the end of the axis: the quadrant offset.
\<close>

definition quadrant_offset :: "int \<Rightarrow> int \<Rightarrow> int" where
  "quadrant_offset n r = (if r \<le> n div 2 then r else n - r)"

section \<open>Caustic inversion (renderer.cpp)\<close>

text \<open>
  The body of the loops of \<open>invert_cc_map::operator()\<close> for the pixel \<open>(j, i)\<close>; \<open>width\<close>
  and \<open>height\<close> are the locals of that name. The lens is the state: the body writes its
  caustic map.
\<close>

definition invert_cc_pixel :: "int \<Rightarrow> int \<Rightarrow> int \<Rightarrow> int \<Rightarrow> lensT \<Rightarrow> lensT option" where
  "invert_cc_pixel width height i j lens =
     do {
       (beta1, beta2) \<leftarrow> raytrace_pixel lens j i j i 1;
       let b1 = static_cast_int (beta1 + 1 / 2);
       let b2 = static_cast_int (beta2 + 1 / 2);
       cc \<leftarrow> mat_at (cc_map lens) i j;
       if cc > 0 \<and> 0 \<le> b1 \<and> b1 < width \<and> 0 \<le> b2 \<and> b2 < height
       then do {
              m1 \<leftarrow> mat_put (caustic_map lens) b2 b1 255;
              let low0 = relocate_int (b1 - 1) width;
              let low1 = relocate_int (b2 - 1) height;
              m2 \<leftarrow> mat_put m1 low1 b1 255;
              m3 \<leftarrow> mat_put m2 b2 low0 255;
              Some (lens\<lparr>caustic_map := m3\<rparr>)
            }
       else Some lens
     }"

text \<open>\<open>void invert_cc_map::operator()(const cv::Range &range) const\<close>\<close>

definition invert_cc_map :: "lensT \<Rightarrow> int \<Rightarrow> int \<Rightarrow> lensT option" where
  "invert_cc_map lens range_start range_end =
     (let width = cols (caustic_map lens);
          height = rows (caustic_map lens)
      in for_loop range_start range_end
           (\<lambda>i l. for_loop 0 width (\<lambda>j l'. invert_cc_pixel width height i j l') l)
           lens)"

text \<open>
  The cell of the source plane that the lens pixel \<open>(j, i)\<close> is traced to with scale
  factor \<open>1\<close>: column, then row.
\<close>

definition traced_cell :: "lensT \<Rightarrow> int \<Rightarrow> int \<Rightarrow> int \<times> int" where
  "traced_cell l i j =
     (static_cast_int (real_of_int j - elems (alpha1 l) i j * weight l + 1 / 2),
      static_cast_int (real_of_int i - elems (alpha2 l) i j * weight l + 1 / 2))"

text \<open>
  The lens pixel \<open>(j, i)\<close> marks the cell \<open>(r, c)\<close> of the caustic map: it lies on a
  critical curve, its traced cell \<open>(b1, b2)\<close> is inside the map, and \<open>(r, c)\<close> is that
  cell, the cell one row up or the cell one column to the left, the neighbour clamped
  into the map.
\<close>

definition marks :: "lensT \<Rightarrow> int \<Rightarrow> int \<Rightarrow> int \<Rightarrow> int \<Rightarrow> bool" where
  "marks l i j r c =
     (let b1 = fst (traced_cell l i j);
          b2 = snd (traced_cell l i j);
          w = cols (caustic_map l);
          h = rows (caustic_map l)
      in 0 < elems (cc_map l) i j \<and> 0 \<le> b1 \<and> b1 < w \<and> 0 \<le> b2 \<and> b2 < h
         \<and> ((r = b2 \<and> c = b1) \<or> (r = relocate_int (b2 - 1) h \<and> c = b1)
             \<or> (r = b2 \<and> c = relocate_int (b1 - 1) w)))"

text \<open>The grids that the pass reads cover the pixel \<open>(j, i)\<close>.\<close>

definition pixel_covered :: "lensT \<Rightarrow> int \<Rightarrow> int \<Rightarrow> bool" where
  "pixel_covered l i j =
     (in_range (alpha1 l) i j \<and> in_range (alpha2 l) i j \<and> in_range (cc_map l) i j)"

text \<open>
  The cell as the specification words it: each coordinate of the traced position rounded
  to the nearest integer. It is the counterpart of \<open>traced_cell\<close>, for comparison with it.
\<close>

definition nearest_cell :: "lensT \<Rightarrow> int \<Rightarrow> int \<Rightarrow> int \<times> int" where
  "nearest_cell l i j =
     (round (real_of_int j - elems (alpha1 l) i j * weight l),
      round (real_of_int i - elems (alpha2 l) i j * weight l))"

text \<open>
  Lenses for the examples, each with one critical-curve pixel, \<open>(1, 1)\<close>: traced to the
  first column exactly, and traced to \<open>-0.7\<close>, to the left of the map.
\<close>

definition lens_edge :: lensT where
  "lens_edge =
     \<lparr>lens_origin = (0, 0), lens_end_points = (2, 2), lens_w = 2, lens_h = 2,
      alpha1 = mat_const 2 2 1, alpha2 = mat_const 2 2 0,
      kappa = mat_const 2 2 0, kappa8u = mat_const 2 2 0,
      cc_map = \<lparr>rows = 2, cols = 2, elems = (\<lambda>r c. if r = 1 \<and> c = 1 then 255 else 0)\<rparr>,
      caustic_map = mat_const 2 2 0, weight = 1\<rparr>"

definition lens_slip :: lensT where
  "lens_slip =
     \<lparr>lens_origin = (0, 0), lens_end_points = (2, 2), lens_w = 2, lens_h = 2,
      alpha1 = mat_const 2 2 (17 / 10), alpha2 = mat_const 2 2 0,
      kappa = mat_const 2 2 0, kappa8u = mat_const 2 2 0,
      cc_map = \<lparr>rows = 2, cols = 2, elems = (\<lambda>r c. if r = 1 \<and> c = 1 then 255 else 0)\<rparr>,
      caustic_map = mat_const 2 2 0, weight = 1\<rparr>"

section \<open>The renderer (screen_io.h, renderer.cpp)\<close>

text \<open>
  The members of \<open>screenT\<close> that \<open>Parallel_renderer\<close> uses; \<open>recompute_lensed\<close> is the
  member of the renderer itself.
\<close>

record screenT =
  scr_lens :: lensT
  scr_src :: sourceT
  lensedRGB :: "Vec3b Mat"
  finalRGB :: "Vec3b Mat"
  max_w :: int
  overlay_mode :: int

definition show_cc :: "int \<Rightarrow> bool" where
  "show_cc mode = (mode > 1 \<and> mode \<le> 4)"

definition show_lens :: "int \<Rightarrow> bool" where
  "show_lens mode = (mode = 1 \<or> mode = 4)"

definition show_overlays :: "int \<Rightarrow> bool" where
  "show_overlays mode = (mode > 0)"

text \<open>
  The overlay block of the pixel loop (from \<open>unsigned overlay_sum = 0\<close> to the end of
  \<open>if (show_overlays and lens.contains(j, i))\<close>). It writes the final buffer only. It ends
  the iteration (\<open>continue\<close>) with the new final buffer, or goes on with the new final
  buffer, \<open>overlay_sum\<close> and \<open>is_caustic_pixel\<close>.
\<close>

datatype overlay_result = Continue "Vec3b Mat" | Proceed "Vec3b Mat" nat bool

definition render_overlays :: "bool \<Rightarrow> lensT \<Rightarrow> int \<Rightarrow> int \<Rightarrow> int \<Rightarrow> Vec3b Mat \<Rightarrow> overlay_result option" where
  "render_overlays recompute_lensed lens mode i j final =
     (let rel_i = i - snd (lens_origin lens);
          rel_j = j - fst (lens_origin lens)
      in if show_overlays mode \<and> lens_contains lens j i
         then do {
           cc_px_value \<leftarrow> (if show_cc mode then map_option unat (mat_at (cc_map lens) rel_i rel_j)
                           else Some 0);
           if show_cc mode \<and> cc_px_value > 0 \<and> cc_px_value = 255 \<and> \<not> recompute_lensed
           then map_option Continue (mat_put final i j (255, 255, 255))
           else do {
             let overlay_sum = (if show_cc mode \<and> cc_px_value > 0 then cc_px_value else 0);
             ca \<leftarrow> mat_at (caustic_map lens) rel_i rel_j;
             let is_caustic_pixel = (if ca > 0 then show_cc mode else False);
             final1 \<leftarrow> (if is_caustic_pixel then mat_put final i j (0, 0, 255) else Some final);
             if is_caustic_pixel \<and> \<not> recompute_lensed then Some (Continue final1)
             else do {
               overlay_sum2 \<leftarrow>
                 (if show_lens mode
                  then map_option (\<lambda>k. overlay_sum + unat k) (mat_at (kappa8u lens) rel_i rel_j)
                  else Some overlay_sum);
               Some (Proceed final1 overlay_sum2 is_caustic_pixel)
             }
           }
         }
         else Some (Proceed final 0 False))"

text \<open>
  The block \<open>if (recompute_lensed)\<close> of the pixel loop: fall-off in \<open>x\<close>, ray tracing,
  sampling of the source, and the write into the lensed buffer.
\<close>

definition raytrace_source :: "lensT \<Rightarrow> sourceT \<Rightarrow> int \<Rightarrow> int \<Rightarrow> real \<Rightarrow> int \<Rightarrow> Vec3b Mat \<Rightarrow> Vec3b Mat option" where
  "raytrace_source lens src i safe_i fi j lensed =
     (let w = lens_w lens;
          wd = real_of_int w;
          w2 = wd * (1 / 2);
          wm1 = wd - 1;
          rel_j = j - fst (lens_origin lens);
          (fj, safe_j) = relocate_and_compute_exp_falloff rel_j w w2 wm1
      in do {
           (beta1, beta2) \<leftarrow> raytrace_pixel lens j i safe_j safe_i (fi * fj);
           px \<leftarrow> get_linear_interpolated_pixel src beta1 beta2;
           mat_put lensed i j px
         })"

text \<open>
  One channel of the final pixel: \<open>unsigned final_val = lensed[c] + overlay_sum\<close>, stored
  as \<open>255\<close> above \<open>255\<close> and as it is otherwise.
\<close>

definition composite_channel :: "uchar \<Rightarrow> nat \<Rightarrow> uchar" where
  "composite_channel v overlay_sum =
     (let final_val = unat v + overlay_sum
      in if final_val > 255 then 255 else word_of_nat final_val)"

text \<open>The channel loop at the end of the pixel loop.\<close>

definition composite_pixel :: "Vec3b Mat \<Rightarrow> Vec3b Mat \<Rightarrow> int \<Rightarrow> int \<Rightarrow> nat \<Rightarrow> Vec3b Mat option" where
  "composite_pixel lensed final i j overlay_sum =
     do {
       lp \<leftarrow> mat_at lensed i j;
       mat_put final i j
         (composite_channel (fst lp) overlay_sum,
          composite_channel (fst (snd lp)) overlay_sum,
          composite_channel (snd (snd lp)) overlay_sum)
     }"

text \<open>The body of the loop over \<open>j\<close> of \<open>Parallel_renderer::operator()\<close>.\<close>

definition render_pixel :: "bool \<Rightarrow> int \<Rightarrow> int \<Rightarrow> real \<Rightarrow> int \<Rightarrow> screenT \<Rightarrow> screenT option" where
  "render_pixel recompute_lensed i safe_i fi j screen =
     (case render_overlays recompute_lensed (scr_lens screen) (overlay_mode screen) i j (finalRGB screen) of
        None \<Rightarrow> None
      | Some (Continue final1) \<Rightarrow> Some (screen\<lparr>finalRGB := final1\<rparr>)
      | Some (Proceed final1 overlay_sum is_caustic_pixel) \<Rightarrow>
          do {
            lensed1 \<leftarrow> (if recompute_lensed
                        then raytrace_source (scr_lens screen) (scr_src screen) i safe_i fi j (lensedRGB screen)
                        else Some (lensedRGB screen));
            final2 \<leftarrow> (if \<not> is_caustic_pixel
                       then composite_pixel lensed1 final1 i j overlay_sum
                       else Some final1);
            Some (screen\<lparr>lensedRGB := lensed1, finalRGB := final2\<rparr>)
          })"

text \<open>The body of the loop over \<open>i\<close>: the fall-off in \<open>y\<close>, then the loop over \<open>j\<close>.\<close>

definition render_row :: "bool \<Rightarrow> int \<Rightarrow> screenT \<Rightarrow> screenT option" where
  "render_row recompute_lensed i screen =
     (let lens = scr_lens screen;
          h = lens_h lens;
          hd = real_of_int h;
          h2 = hd * (1 / 2);
          hm1 = hd - 1;
          rel_i = i - snd (lens_origin lens);
          (fi, safe_i) = (if recompute_lensed then relocate_and_compute_exp_falloff rel_i h h2 hm1
                          else (1, 0))
      in for_loop 0 (max_w screen) (render_pixel recompute_lensed i safe_i fi) screen)"

text \<open>\<open>void Parallel_renderer::operator()(const cv::Range &range) const\<close>\<close>

definition Parallel_renderer :: "bool \<Rightarrow> screenT \<Rightarrow> int \<Rightarrow> int \<Rightarrow> screenT option" where
  "Parallel_renderer recompute_lensed screen range_start range_end =
     for_loop range_start range_end (render_row recompute_lensed) screen"

text \<open>
  The overlay accumulator of a pixel of the lens footprint: the critical-curve value if
  that layer is shown, plus the convergence byte if that layer is shown.
\<close>

definition overlay_total :: "lensT \<Rightarrow> int \<Rightarrow> int \<Rightarrow> int \<Rightarrow> nat" where
  "overlay_total lens mode i j =
     (let rel_i = i - snd (lens_origin lens);
          rel_j = j - fst (lens_origin lens)
      in (if show_cc mode then unat (elems (cc_map lens) rel_i rel_j) else 0)
         + (if show_lens mode then unat (elems (kappa8u lens) rel_i rel_j) else 0))"

text \<open>A final pixel is the lensed pixel plus the accumulator, each channel at most 255.\<close>

definition saturated_sum :: "Vec3b \<Rightarrow> nat \<Rightarrow> Vec3b \<Rightarrow> bool" where
  "saturated_sum lp n fp =
     (unat (fst fp) = min 255 (unat (fst lp) + n)
      \<and> unat (fst (snd fp)) = min 255 (unat (fst (snd lp)) + n)
      \<and> unat (snd (snd fp)) = min 255 (unat (snd (snd lp)) + n))"

text \<open>
  What the renderer leaves in the final buffer for a pixel of the lens footprint while
  the critical-curve layer is shown, given the lensed pixel \<open>lp\<close> of the same place.
\<close>

definition footprint_pixel :: "bool \<Rightarrow> lensT \<Rightarrow> int \<Rightarrow> int \<Rightarrow> int \<Rightarrow> Vec3b \<Rightarrow> Vec3b \<Rightarrow> bool" where
  "footprint_pixel recompute_lensed lens mode i j lp fp =
     (let rel_i = i - snd (lens_origin lens);
          rel_j = j - fst (lens_origin lens);
          cc = elems (cc_map lens) rel_i rel_j;
          ca = elems (caustic_map lens) rel_i rel_j
      in if cc = 255 \<and> \<not> recompute_lensed then fp = (255, 255, 255)
         else if ca > 0 then fp = (0, 0, 255)
         else saturated_sum lp (overlay_total lens mode i j) fp)"

text \<open>
  A screen whose grids fit: the lens grids have the size of the lens, the end points of
  the lens are its origin plus its size, the source is well formed, and both buffers
  have the width of the screen.
\<close>

definition lens_grid :: "lensT \<Rightarrow> 'a Mat \<Rightarrow> bool" where
  "lens_grid lens m = (rows m = lens_h lens \<and> cols m = lens_w lens)"

definition screen_wf :: "screenT \<Rightarrow> bool" where
  "screen_wf screen =
     (let lens = scr_lens screen
      in 1 \<le> lens_w lens \<and> 1 \<le> lens_h lens
         \<and> lens_end_points lens = (fst (lens_origin lens) + lens_w lens, snd (lens_origin lens) + lens_h lens)
         \<and> lens_grid lens (alpha1 lens) \<and> lens_grid lens (alpha2 lens) \<and> lens_grid lens (cc_map lens)
         \<and> lens_grid lens (caustic_map lens) \<and> lens_grid lens (kappa8u lens)
         \<and> source_wf (scr_src screen)
         \<and> 0 \<le> max_w screen
         \<and> cols (lensedRGB screen) = max_w screen \<and> cols (finalRGB screen) = max_w screen
         \<and> rows (lensedRGB screen) = rows (finalRGB screen))"

text \<open>A screen for the examples: a lens of 3 by 3 pixels at the origin, all four overlays
  on, a critical-curve pixel that is also a caustic pixel at \<open>(1, 1)\<close>, a caustic pixel
  at \<open>(2, 2)\<close>.\<close>

definition lens_overlay :: lensT where
  "lens_overlay =
     \<lparr>lens_origin = (0, 0), lens_end_points = (3, 3), lens_w = 3, lens_h = 3,
      alpha1 = mat_const 3 3 0, alpha2 = mat_const 3 3 0,
      kappa = mat_const 3 3 0, kappa8u = mat_const 3 3 10,
      cc_map = \<lparr>rows = 3, cols = 3, elems = (\<lambda>r c. if r = 1 \<and> c = 1 then 255 else 0)\<rparr>,
      caustic_map = \<lparr>rows = 3, cols = 3,
                     elems = (\<lambda>r c. if (r = 1 \<and> c = 1) \<or> (r = 2 \<and> c = 2) then 255 else 0)\<rparr>,
      weight = 1\<rparr>"

definition screen_demo :: screenT where
  "screen_demo =
     \<lparr>scr_lens = lens_overlay, scr_src = source_demo,
      lensedRGB = mat_const 3 3 (250, 100, 0), finalRGB = mat_const 3 3 (0, 0, 0),
      max_w = 3, overlay_mode = 4\<rparr>"

chapter \<open>Verified properties\<close>

section \<open>Ray tracing\<close>

lemma raytrace_pixel_in_range:
  assumes "in_range (alpha1 l) relY relX" and "in_range (alpha2 l) relY relX"
  shows "raytrace_pixel l x1 x2 relX relY s =
           Some (real_of_int x1 - weight l * s * elems (alpha1 l) relY relX,
                 real_of_int x2 - weight l * s * elems (alpha2 l) relY relX)"
  using assms by (simp add: raytrace_pixel_def mat_at_def mult.commute mult.left_commute)

text \<open>
  C1. For every pixel \<open>(x1, x2)\<close>, every pair of in-range indices \<open>(relX, relY)\<close> of the
  deflection grids, every scale factor \<open>s\<close> and every weight \<open>w\<close>, \<open>raytrace_pixel\<close>
  returns \<open>(x1 - w * s * alpha1[relY][relX], x2 - w * s * alpha2[relY][relX])\<close>; with
  the grids, the indices and the scale factor fixed, the lens of weight \<open>2 * w\<close> moves
  the output twice as far from the pixel as the lens of weight \<open>w\<close>.
\<close>

theorem raytrace_pixel_weight_scaling:
  assumes "in_range (alpha1 l) relY relX" and "in_range (alpha2 l) relY relX"
  shows "raytrace_pixel (l\<lparr>weight := w\<rparr>) x1 x2 relX relY s =
           Some (real_of_int x1 - w * s * elems (alpha1 l) relY relX,
                 real_of_int x2 - w * s * elems (alpha2 l) relY relX)
       \<and> (\<exists>y1 y2 z1 z2.
             raytrace_pixel (l\<lparr>weight := w\<rparr>) x1 x2 relX relY s = Some (y1, y2)
           \<and> raytrace_pixel (l\<lparr>weight := 2 * w\<rparr>) x1 x2 relX relY s = Some (z1, z2)
           \<and> z1 - real_of_int x1 = 2 * (y1 - real_of_int x1)
           \<and> z2 - real_of_int x2 = 2 * (y2 - real_of_int x2))"
proof -
  have r: "\<And>v. raytrace_pixel (l\<lparr>weight := v\<rparr>) x1 x2 relX relY s =
           Some (real_of_int x1 - v * s * elems (alpha1 l) relY relX,
                 real_of_int x2 - v * s * elems (alpha2 l) relY relX)"
    using assms raytrace_pixel_in_range [of "l\<lparr>weight := v\<rparr>" relY relX x1 x2 s for v]
    by simp
  show ?thesis
    by (simp add: r)
qed

theorem raytrace_pixel_weight_scaling_witness:
  "raytrace_pixel (lens_demo\<lparr>weight := 3\<rparr>) 5 7 1 0 (1 / 2) = Some (2, 17 / 2)"
  using raytrace_pixel_weight_scaling [of lens_demo 0 1 3 5 7 "1 / 2"]
  by (simp add: lens_demo_def in_range_def)

section \<open>Relocation\<close>

lemma relocate_int_range: "1 \<le> L \<Longrightarrow> 0 \<le> relocate_int x L \<and> relocate_int x L \<le> L - 1"
  by (simp add: relocate_int_def)

lemma relocate_double_range: "1 \<le> L \<Longrightarrow> 0 \<le> relocate_double x L \<and> relocate_double x L \<le> L - 1"
  by (simp add: relocate_double_def Let_def)

lemma relocate_int_fixed: "0 \<le> k \<Longrightarrow> k \<le> L - 1 \<Longrightarrow> relocate_int k L = k"
  by (simp add: relocate_int_def)

lemma static_cast_int_of_int: "static_cast_int (real_of_int k) = k"
  by (simp add: static_cast_int_def)

lemma relocate_double_of_int:
  assumes "1 \<le> L"
  shows "relocate_double (real_of_int k) L = relocate_int k L"
proof -
  have "static_cast_int (real_of_int k + 1 / 2) = (if 0 \<le> k then k else k + 1)"
    unfolding static_cast_int_def by (auto; linarith)
  with assms show ?thesis
    by (auto simp: relocate_double_def relocate_int_def Let_def)
qed

text \<open>
  C9. For every coordinate, a \<open>double\<close> \<open>x\<close> or an \<open>int\<close> \<open>k\<close>, and every interval length
  \<open>L \<ge> 1\<close>, \<open>relocate\<close> lies in \<open>[0, L - 1]\<close>, and relocating the result again (it is an
  \<open>int\<close>, so C++ selects the \<open>int\<close> overload; the \<open>double\<close> overload on the same
  value agrees) gives the same result.
\<close>

theorem relocate_range_idempotent:
  assumes "1 \<le> L"
  shows "0 \<le> relocate_double x L \<and> relocate_double x L \<le> L - 1
       \<and> 0 \<le> relocate_int k L \<and> relocate_int k L \<le> L - 1
       \<and> relocate_int (relocate_double x L) L = relocate_double x L
       \<and> relocate_int (relocate_int k L) L = relocate_int k L
       \<and> relocate_double (real_of_int (relocate_double x L)) L = relocate_double x L
       \<and> relocate_double (real_of_int (relocate_int k L)) L = relocate_int k L"
  using assms relocate_double_range [of L x] relocate_int_range [of L k]
  by (simp add: relocate_int_fixed relocate_double_of_int)

theorem relocate_range_idempotent_witness:
  "relocate_double (-7 / 2) 4 = 0 \<and> relocate_double (5 / 2) 4 = 3 \<and> relocate_double 9 4 = 3
   \<and> relocate_int (relocate_double (5 / 2) 4) 4 = 3 \<and> relocate_int 9 4 = 3"
proof -
  have a: "relocate_double (-7 / 2) 4 = 0" "relocate_double (5 / 2) 4 = 3" "relocate_double 9 4 = 3"
    "relocate_int 9 4 = 3"
    by (simp_all add: relocate_double_def relocate_int_def static_cast_int_def)
  from relocate_range_idempotent [of 4 "5 / 2" 9] a show ?thesis by simp
qed

section \<open>Exponential fall-off\<close>

lemma falloff_inside:
  "0 \<le> p \<Longrightarrow> p < len \<Longrightarrow> relocate_and_compute_exp_falloff p len half lm1 = (1, p)"
  by (simp add: relocate_and_compute_exp_falloff_def)

lemma falloff_outside:
  assumes "1 \<le> len" and "half = real_of_int len / 2" and "lm1 = real_of_int len - 1"
    and "p < 0 \<or> len \<le> p"
  shows "relocate_and_compute_exp_falloff p len half lm1 = (exp (excess p len / half), relocate_int p len)"
    and "excess p len < 0" and "0 < half"
proof -
  have "static_cast_int (real_of_int len - 1) = len - 1"
    using static_cast_int_of_int [of "len - 1"] by simp
  with assms show "relocate_and_compute_exp_falloff p len half lm1 = (exp (excess p len / half), relocate_int p len)"
    by (auto simp: relocate_and_compute_exp_falloff_def excess_def relocate_int_def)
  from assms show "excess p len < 0" by (auto simp: excess_def)
  from assms show "0 < half" by simp
qed

lemma exp_fall_off_eq:
  "exp_fall_off p len half lm1 = fst (relocate_and_compute_exp_falloff p len half lm1)"
  by (simp add: exp_fall_off_def relocate_and_compute_exp_falloff_def)

lemma excess_nearest_pixel:
  assumes "1 \<le> len" and "p < 0 \<or> len \<le> p"
  shows "excess p len = - real_of_int (Min ((\<lambda>k. \<bar>p - k\<bar>) ` {0..<len}))"
proof -
  have "Min ((\<lambda>k. \<bar>p - k\<bar>) ` {0..<len}) = (if p < 0 then - p else p - (len - 1))"
  proof (rule Min_eqI)
    show "finite ((\<lambda>k. \<bar>p - k\<bar>) ` {0..<len})" by simp
    show "\<And>y. y \<in> (\<lambda>k. \<bar>p - k\<bar>) ` {0..<len} \<Longrightarrow> (if p < 0 then - p else p - (len - 1)) \<le> y"
      using assms by auto
    show "(if p < 0 then - p else p - (len - 1)) \<in> (\<lambda>k. \<bar>p - k\<bar>) ` {0..<len}"
    proof (cases "p < 0")
      case True
      then have "\<bar>p - 0\<bar> = - p" by simp
      moreover have "(0::int) \<in> {0..<len}" using assms by simp
      ultimately show ?thesis using True by (metis (full_types) image_eqI)
    next
      case False
      then have "\<bar>p - (len - 1)\<bar> = p - (len - 1)" using assms by simp
      moreover have "len - 1 \<in> {0..<len}" using assms by simp
      ultimately show ?thesis using False by (metis (full_types) image_eqI)
    qed
  qed
  then show ?thesis using assms by (auto simp: excess_def)
qed

text \<open>
  C2. For every interval length \<open>len \<ge> 1\<close>, with \<open>half = len / 2\<close> and
  \<open>lm1 = len - 1\<close>, \<open>relocate_and_compute_exp_falloff\<close> returns the weight \<open>1\<close>
  and leaves the coordinate as it is for every \<open>rel_px\<close> in \<open>[0, len)\<close>. Outside the
  interval the weight lies strictly between \<open>0\<close> and \<open>1\<close>, it is
  \<open>exp (excess / half)\<close> where \<open>excess\<close> is the negated distance to the nearest pixel
  of the interval (\<open>0\<close> or \<open>len - 1\<close>), and it strictly decreases as the coordinate
  moves further out on either side. \<open>exp_fall_off\<close> returns the same weight.
\<close>

theorem falloff_weight:
  assumes "1 \<le> len" and "half = real_of_int len / 2" and "lm1 = real_of_int len - 1"
  shows "(\<forall>p. 0 \<le> p \<and> p < len \<longrightarrow>
            relocate_and_compute_exp_falloff p len half lm1 = (1, p)
          \<and> exp_fall_off p len half lm1 = 1)
       \<and> (\<forall>p. p < 0 \<or> len \<le> p \<longrightarrow>
            0 < fst (relocate_and_compute_exp_falloff p len half lm1)
          \<and> fst (relocate_and_compute_exp_falloff p len half lm1) < 1
          \<and> fst (relocate_and_compute_exp_falloff p len half lm1) = exp (excess p len / half)
          \<and> exp_fall_off p len half lm1 = exp (excess p len / half)
          \<and> excess p len = - real_of_int (Min ((\<lambda>k. \<bar>p - k\<bar>) ` {0..<len})))
       \<and> (\<forall>p q. p < q \<and> q < 0 \<longrightarrow>
            fst (relocate_and_compute_exp_falloff p len half lm1)
              < fst (relocate_and_compute_exp_falloff q len half lm1))
       \<and> (\<forall>p q. len \<le> p \<and> p < q \<longrightarrow>
            fst (relocate_and_compute_exp_falloff q len half lm1)
              < fst (relocate_and_compute_exp_falloff p len half lm1))"
proof (intro conjI allI impI)
  fix p assume "0 \<le> p \<and> p < len"
  then show "relocate_and_compute_exp_falloff p len half lm1 = (1, p)"
    by (simp add: falloff_inside)
  then show "exp_fall_off p len half lm1 = 1"
    by (simp add: exp_fall_off_eq)
next
  fix p assume out: "p < 0 \<or> len \<le> p"
  note f = falloff_outside [OF assms out]
  have neg: "excess p len / half < 0"
    using f(2,3) by (simp add: divide_neg_pos)
  show "0 < fst (relocate_and_compute_exp_falloff p len half lm1)"
    by (simp add: f(1))
  show "fst (relocate_and_compute_exp_falloff p len half lm1) < 1"
    using neg by (simp add: f(1))
  show "fst (relocate_and_compute_exp_falloff p len half lm1) = exp (excess p len / half)"
    by (simp add: f(1))
  show "exp_fall_off p len half lm1 = exp (excess p len / half)"
    by (simp add: exp_fall_off_eq f(1))
  show "excess p len = - real_of_int (Min ((\<lambda>k. \<bar>p - k\<bar>) ` {0..<len}))"
    using excess_nearest_pixel [OF assms(1) out] .
next
  fix p q :: int assume pq: "p < q \<and> q < 0"
  have h: "0 < half" using assms by simp
  from pq have "real_of_int p / half < real_of_int q / half"
    using h by (simp add: divide_strict_right_mono)
  with pq show "fst (relocate_and_compute_exp_falloff p len half lm1)
              < fst (relocate_and_compute_exp_falloff q len half lm1)"
    by (simp add: relocate_and_compute_exp_falloff_def)
next
  fix p q :: int assume pq: "len \<le> p \<and> p < q"
  have h: "0 < half" using assms by simp
  from pq have "(lm1 - real_of_int q) / half < (lm1 - real_of_int p) / half"
    using h by (simp add: divide_strict_right_mono)
  moreover have "\<not> p < 0" "\<not> q < 0" "len \<le> q" using pq assms(1) by simp_all
  ultimately show "fst (relocate_and_compute_exp_falloff q len half lm1)
              < fst (relocate_and_compute_exp_falloff p len half lm1)"
    using pq by (simp add: relocate_and_compute_exp_falloff_def)
qed

theorem falloff_weight_witness:
  "relocate_and_compute_exp_falloff 2 4 2 3 = (1, 2)
   \<and> fst (relocate_and_compute_exp_falloff 6 4 2 3) = exp (- 3 / 2)
   \<and> fst (relocate_and_compute_exp_falloff 6 4 2 3) < 1
   \<and> fst (relocate_and_compute_exp_falloff (- 5) 4 2 3) < fst (relocate_and_compute_exp_falloff (- 1) 4 2 3)
   \<and> fst (relocate_and_compute_exp_falloff 6 4 2 3) < fst (relocate_and_compute_exp_falloff 4 4 2 3)"
proof -
  have e: "excess 6 4 = - 3" by (simp add: excess_def)
  have "(1::int) \<le> 4" "(2::real) = real_of_int 4 / 2" "(3::real) = real_of_int 4 - 1"
    by simp_all
  from falloff_weight [OF this] e show ?thesis
    by (simp add: relocate_and_compute_exp_falloff_def)
qed

section \<open>Geometry of lens and source, lens construction\<close>

lemma lens_move_geometry:
  "lens_geometry (lens_move l x y) x y \<and> lens_w (lens_move l x y) = lens_w l
   \<and> lens_h (lens_move l x y) = lens_h l"
  by (simp add: lens_geometry_def lens_move_def Let_def)

lemma source_move_geometry:
  "source_geometry (source_move s x y) x y \<and> src_w (source_move s x y) = src_w s
   \<and> src_h (source_move s x y) = src_h s"
  by (simp add: source_geometry_def source_move_def Let_def)

lemma lensT_new_geometry:
  "lens_geometry (lensT_new u derive kappa_in x y) x y
   \<and> lens_w (lensT_new u derive kappa_in x y) = input_cols kappa_in
   \<and> lens_h (lensT_new u derive kappa_in x y) = input_rows kappa_in"
  by (simp add: lensT_new_def Let_def lens_geometry_def lens_move_def
           split: kappa_input.splits prod.splits)

lemma lensT_new_bytes:
  "kappa8u (lensT_new u derive (CV_8U m) x y) = m
   \<and> kappa (lensT_new u derive (CV_8U m) x y) = cv_normalize_minmax (convert_to_double m) 2 0"
  by (simp add: lensT_new_def Let_def split: prod.splits)

lemma lensT_new_doubles:
  "kappa (lensT_new u derive (CV_64F m) x y) = m
   \<and> kappa8u (lensT_new u derive (CV_64F m) x y) = log_display u m"
  by (simp add: lensT_new_def Let_def split: prod.splits)

lemma sourceT_new_geometry:
  "source_geometry (sourceT_new img x y) x y \<and> src_w (sourceT_new img x y) = cols img
   \<and> src_h (sourceT_new img x y) = rows img"
  by (simp add: sourceT_new_def source_geometry_def source_move_def Let_def)

lemma resize_area_geometry:
  assumes "source_geometry s cx cy"
  shows "source_geometry (resize_area cv_resize s factor) cx cy
       \<and> src_w (resize_area cv_resize s factor) = static_cast_int (real_of_int (cols (imageRGB s)) * factor)
       \<and> src_h (resize_area cv_resize s factor) = static_cast_int (real_of_int (rows (imageRGB s)) * factor)"
  using assms
  by (simp add: resize_area_def source_geometry_def source_move_def Let_def)

text \<open>
  C10. After construction and after every geometry operation (\<open>lensT::move\<close>,
  \<open>sourceT::move\<close>, \<open>sourceT::resize_area\<close>) the end points are the origin plus the
  current size and the origin is the centre minus half the size (integer division of
  C++): \<open>lens_geometry\<close> and \<open>source_geometry\<close>. The constructors and the moves
  establish it for the requested centre whatever the state before; the lens
  constructor does so for every input, byte-valued or \<open>double\<close>, whatever its cells;
  \<open>resize_area\<close> keeps it for the new width and height and leaves the centre where it
  was.
\<close>

theorem geometry_invariant:
  "lens_geometry (lens_move l x y) x y
   \<and> lens_w (lens_move l x y) = lens_w l \<and> lens_h (lens_move l x y) = lens_h l
   \<and> lens_geometry (lensT_new u derive kappa_in x y) x y
   \<and> lens_w (lensT_new u derive kappa_in x y) = input_cols kappa_in
   \<and> lens_h (lensT_new u derive kappa_in x y) = input_rows kappa_in
   \<and> source_geometry (source_move s x y) x y
   \<and> src_w (source_move s x y) = src_w s \<and> src_h (source_move s x y) = src_h s
   \<and> source_geometry (sourceT_new img x y) x y
   \<and> src_w (sourceT_new img x y) = cols img \<and> src_h (sourceT_new img x y) = rows img
   \<and> (source_geometry s cx cy \<longrightarrow>
         source_geometry (resize_area cv_resize s factor) cx cy
       \<and> src_pos (resize_area cv_resize s factor) = src_pos s
       \<and> src_w (resize_area cv_resize s factor) = static_cast_int (real_of_int (cols (imageRGB s)) * factor)
       \<and> src_h (resize_area cv_resize s factor) = static_cast_int (real_of_int (rows (imageRGB s)) * factor))"
proof -
  have "source_geometry s cx cy \<Longrightarrow> src_pos (resize_area cv_resize s factor) = src_pos s"
    using resize_area_geometry [of s cx cy cv_resize factor] by (simp add: source_geometry_def)
  then show ?thesis
    using lens_move_geometry [of l x y] source_move_geometry [of s x y]
      sourceT_new_geometry [of img x y] lensT_new_geometry [of u derive kappa_in x y]
      resize_area_geometry [of s cx cy cv_resize factor]
    by blast
qed

theorem geometry_invariant_witness:
  "source_geometry (resize_area (\<lambda>m f. m) (sourceT_new image_demo 10 20) (1 / 2)) 10 20
   \<and> src_origin (sourceT_new image_demo 10 20) = (6, 17)
   \<and> src_end_points (sourceT_new image_demo 10 20) = (15, 23)
   \<and> src_w (resize_area (\<lambda>m f. m) (sourceT_new image_demo 10 20) (1 / 2)) = 4
   \<and> src_origin (resize_area (\<lambda>m f. m) (sourceT_new image_demo 10 20) (1 / 2)) = (8, 19)
   \<and> src_end_points (resize_area (\<lambda>m f. m) (sourceT_new image_demo 10 20) (1 / 2)) = (12, 22)
   \<and> src_pos (resize_area (\<lambda>m f. m) (sourceT_new image_demo 10 20) (1 / 2)) = (10, 20)
   \<and> lens_origin (lensT_new (\<lambda>v. 0) (\<lambda>k. (k, k, bytes_255, bytes_255)) (CV_64F zeros_7_5) 10 20) = (8, 17)
   \<and> lens_end_points (lensT_new (\<lambda>v. 0) (\<lambda>k. (k, k, bytes_255, bytes_255)) (CV_64F zeros_7_5) 10 20) = (13, 24)
   \<and> lens_origin (lens_move lens_demo 10 20) = (9, 19)
   \<and> lens_end_points (lens_move lens_demo 10 20) = (11, 21)"
proof -
  let ?s = "sourceT_new image_demo 10 20"
  let ?l = "lensT_new (\<lambda>v. 0) (\<lambda>k. (k, k, bytes_255, bytes_255)) (CV_64F zeros_7_5) 10 20"
  note g = geometry_invariant [of lens_demo 10 20 "\<lambda>v. 0" "\<lambda>k. (k, k, bytes_255, bytes_255)"
      "CV_64F zeros_7_5" ?s image_demo 10 20 "\<lambda>m f. m" "1 / 2"]
  from g have a: "source_geometry ?s 10 20" by blast
  with g have b: "source_geometry (resize_area (\<lambda>m f. m) ?s (1 / 2)) 10 20" by blast
  have c: "src_origin ?s = (6, 17)" "src_end_points ?s = (15, 23)"
    by (simp_all add: sourceT_new_def source_move_def image_demo_def signed_divide_int_def)
  have d: "src_w (resize_area (\<lambda>m f. m) ?s (1 / 2)) = 4"
    "src_origin (resize_area (\<lambda>m f. m) ?s (1 / 2)) = (8, 19)"
    "src_end_points (resize_area (\<lambda>m f. m) ?s (1 / 2)) = (12, 22)"
    "src_pos (resize_area (\<lambda>m f. m) ?s (1 / 2)) = (10, 20)"
    by (simp_all add: resize_area_def Let_def sourceT_new_def source_move_def image_demo_def
          signed_divide_int_def static_cast_int_def)
  from g have lg: "lens_geometry ?l 10 20" and lw: "lens_w ?l = input_cols (CV_64F zeros_7_5)"
    and lh: "lens_h ?l = input_rows (CV_64F zeros_7_5)" by blast+
  have sz: "lens_w ?l = 5" "lens_h ?l = 7"
    unfolding lw lh by (simp_all add: input_cols_def input_rows_def zeros_7_5_def mat_const_def)
  have e: "lens_origin ?l = (8, 17)" "lens_end_points ?l = (13, 24)"
    using lg unfolding lens_geometry_def sz by (simp_all add: signed_divide_int_def)
  from g have mg: "lens_geometry (lens_move lens_demo 10 20) 10 20"
    and mw: "lens_w (lens_move lens_demo 10 20) = lens_w lens_demo"
    and mh: "lens_h (lens_move lens_demo 10 20) = lens_h lens_demo" by blast+
  have msz: "lens_w (lens_move lens_demo 10 20) = 2" "lens_h (lens_move lens_demo 10 20) = 2"
    unfolding mw mh by (simp_all add: lens_demo_def)
  have f: "lens_origin (lens_move lens_demo 10 20) = (9, 19)"
    "lens_end_points (lens_move lens_demo 10 20) = (11, 21)"
    using mg unfolding lens_geometry_def msz by (simp_all add: signed_divide_int_def)
  from b c d e f show ?thesis by simp
qed

text \<open>
  C6 (the code differs). A byte-valued input is kept as the display copy, but the
  \<open>double\<close> grid comes from \<open>cv::normalize(..., 2, 0, cv::NORM_MINMAX)\<close>, which maps
  the least byte \<^emph>\<open>of this image\<close> to \<open>0\<close> and the greatest to \<open>2\<close>. It is not a fixed
  normalization with \<open>255 \<mapsto> 2\<close>: in the image with the bytes \<open>0\<close> and \<open>100\<close> the byte
  \<open>100\<close> becomes the convergence \<open>2\<close> (a fixed scale would give \<open>200 / 255\<close>), and in
  the image that is \<open>255\<close> everywhere the byte \<open>255\<close> becomes \<open>0\<close>.
\<close>

theorem lens_normalization_minmax:
  "kappa8u (lensT_new u derive (CV_8U bytes_0_100) x y) = bytes_0_100
   \<and> elems (kappa (lensT_new u derive (CV_8U bytes_0_100) x y)) 0 0 = 0
   \<and> elems (kappa (lensT_new u derive (CV_8U bytes_0_100) x y)) 0 1 = 2
   \<and> kappa8u (lensT_new u derive (CV_8U bytes_255) x y) = bytes_255
   \<and> elems (kappa (lensT_new u derive (CV_8U bytes_255) x y)) 0 0 = 0
   \<and> elems (kappa (lensT_new u derive (CV_8U bytes_255) x y)) 0 1 = 0"
proof -
  have v1: "mat_values (convert_to_double bytes_0_100) = [0, 100]"
    by (simp add: mat_values_def convert_to_double_def bytes_0_100_def upto.simps)
  have v2: "mat_values (convert_to_double bytes_255) = [255, 255]"
    by (simp add: mat_values_def convert_to_double_def bytes_255_def upto.simps)
  have n1: "elems (cv_normalize_minmax (convert_to_double bytes_0_100) 2 0) 0 0 = 0"
    "elems (cv_normalize_minmax (convert_to_double bytes_0_100) 2 0) 0 1 = 2"
    by (simp_all add: cv_normalize_minmax_def v1 Let_def DBL_EPSILON_def)
      (simp_all add: convert_to_double_def bytes_0_100_def)
  have n2: "elems (cv_normalize_minmax (convert_to_double bytes_255) 2 0) 0 0 = 0"
    "elems (cv_normalize_minmax (convert_to_double bytes_255) 2 0) 0 1 = 0"
    by (simp_all add: cv_normalize_minmax_def v2 Let_def DBL_EPSILON_def)
  show ?thesis
    using lensT_new_bytes [of u derive bytes_0_100 x y] lensT_new_bytes [of u derive bytes_255 x y]
    by (simp add: n1 n2)
qed

section \<open>Bilinear sampling of the source\<close>

lemma get_pixel_outside:
  "\<not> source_contains s beta1 beta2 \<Longrightarrow> get_linear_interpolated_pixel s beta1 beta2 = Some (0, 0, 0)"
  by (simp add: get_linear_interpolated_pixel_def)

lemma contains_size:
  assumes "source_contains s beta1 beta2" and "source_wf s"
  shows "1 \<le> src_w s" and "1 \<le> src_h s"
  using assms by (auto simp: source_contains_def source_wf_def Let_def)

lemma interpolate_channel_in_range:
  assumes "channel_covers s ch" and "1 \<le> src_w s" and "1 \<le> src_h s"
  shows "interpolate_channel ch (relocate_int j (src_w s)) (relocate_int i (src_h s))
           (relocate_int (j + 1) (src_w s)) (relocate_int (i + 1) (src_h s)) c00 c01 c10 c11 =
         Some (uchar_of_double
                 (clamped_pixel s ch i j * c00 + clamped_pixel s ch i (j + 1) * c01
                  + clamped_pixel s ch (i + 1) j * c10 + clamped_pixel s ch (i + 1) (j + 1) * c11))"
proof -
  have r: "\<And>a b. in_range ch (relocate_int a (src_h s)) (relocate_int b (src_w s))"
    using assms relocate_int_range [of "src_h s"] relocate_int_range [of "src_w s"]
    by (simp add: in_range_def channel_covers_def) (smt (verit))
  show ?thesis
    by (simp add: interpolate_channel_def mat_at_def r clamped_pixel_def)
qed

lemma bilinear_coefficients:
  fixes x y :: real
  shows "a * (1 - x - y + x * y) + b * (x - x * y) + c * (y - x * y) + d * (x * y)
       = a * (1 - x) * (1 - y) + b * x * (1 - y) + c * (1 - x) * y + d * x * y"
  by (simp add: algebra_simps)

lemma get_pixel_inside:
  assumes "source_contains s beta1 beta2" and "source_wf s"
  shows "get_linear_interpolated_pixel s beta1 beta2 =
           Some (uchar_of_double (bilinear (clamped_pixel s (fst (channels s)))
                    (beta1 - real_of_int (fst (src_origin s))) (beta2 - real_of_int (snd (src_origin s)))),
                 uchar_of_double (bilinear (clamped_pixel s (fst (snd (channels s))))
                    (beta1 - real_of_int (fst (src_origin s))) (beta2 - real_of_int (snd (src_origin s)))),
                 uchar_of_double (bilinear (clamped_pixel s (snd (snd (channels s))))
                    (beta1 - real_of_int (fst (src_origin s))) (beta2 - real_of_int (snd (src_origin s)))))"
proof -
  note sz = contains_size [OF assms]
  have cov: "channel_covers s (fst (channels s))" "channel_covers s (fst (snd (channels s)))"
    "channel_covers s (snd (snd (channels s)))"
    using assms(2) by (simp_all add: source_wf_def)
  have rd: "\<And>k. relocate_double (real_of_int k) (src_w s) = relocate_int k (src_w s)"
    "\<And>k. relocate_double (real_of_int k) (src_h s) = relocate_int k (src_h s)"
    using sz by (simp_all add: relocate_double_of_int)
  have rd1: "\<And>k. relocate_double (real_of_int k + 1) (src_w s) = relocate_int (k + 1) (src_w s)"
    "\<And>k. relocate_double (real_of_int k + 1) (src_h s) = relocate_int (k + 1) (src_h s)"
    using rd(1) [of "k + 1" for k] rd(2) [of "k + 1" for k] by (simp_all add: add.commute)
  obtain ch0 ch1 ch2 where ch: "channels s = (ch0, ch1, ch2)"
    by (cases "channels s") auto
  show ?thesis
    using assms(1) cov
    by (simp add: get_linear_interpolated_pixel_def Let_def ch rd rd1
          interpolate_channel_in_range [OF _ sz] bilinear_def frac_def bilinear_coefficients)
qed


lemma static_cast_int_nat: "static_cast_int (real n) = int n"
  by (simp add: static_cast_int_def)

lemma uchar_of_double_unat: "uchar_of_double (real (unat p)) = p"
  unfolding uchar_of_double_def static_cast_int_nat by simp

lemma uchar_of_double_unsigned: "uchar_of_double (unsigned p) = p"
  using uchar_of_double_unat [of p] by simp

lemma unat_half_sum: "unat (half_sum a b) = (unat a + unat b) div 2"
proof -
  have "unat a < 2 ^ LENGTH(8)" "unat b < 2 ^ LENGTH(8)"
    by (rule unsigned_less)+
  then have "(unat a + unat b) div 2 < 2 ^ LENGTH(8)" by simp
  then show ?thesis
    unfolding half_sum_def by (rule of_nat_inverse [OF refl])
qed

lemma half_nat_close:
  "\<bar>real ((n + m) div 2) - (real n + real m) / 2\<bar> \<le> 1 / 2"
proof -
  define d r where "d = (n + m) div 2" and "r = (n + m) mod 2"
  have "n + m = 2 * d + r" by (simp add: d_def r_def)
  then have "real (n + m) = real (2 * d + r)" by (rule arg_cong)
  then have e: "real n + real m = 2 * real d + real r" by simp
  have "r \<le> 1" by (simp add: r_def)
  then have "real r \<le> 1" by simp
  moreover have "0 \<le> real r" by simp
  moreover have "real d - (real n + real m) / 2 = - real r / 2"
    using e by (simp add: field_simps)
  ultimately show ?thesis unfolding d_def [symmetric] by simp
qed

lemma half_sum_close:
  "\<bar>real (unat (half_sum a b)) - (real (unat a) + real (unat b)) / 2\<bar> \<le> 1 / 2"
  unfolding unat_half_sum by (rule half_nat_close)

lemma static_cast_int_mean:
  "static_cast_int ((real n + real m) / 2) = int ((n + m) div 2)"
proof -
  have "(real n + real m) / 2 = real_of_int (int (n + m)) / real_of_int 2"
    by simp
  then have "\<lfloor>(real n + real m) / 2\<rfloor> = int (n + m) div 2"
    by (simp only: floor_divide_of_int_eq)
  then show ?thesis
    by (simp add: static_cast_int_def zdiv_int)
qed

lemma uchar_of_double_mean:
  "uchar_of_double ((real (unat a) + real (unat b)) / 2) = half_sum a b"
  unfolding uchar_of_double_def half_sum_def static_cast_int_mean by simp

lemma uchar_of_double_mean_unsigned:
  "uchar_of_double ((unsigned a + unsigned b) / 2) = half_sum a b"
  using uchar_of_double_mean [of a b] by simp

lemma contains_int_pixel:
  assumes "source_contains s (real_of_int px + d) (real_of_int py)" and "source_wf s"
    and "d = 0 \<or> d = 1 / 2"
  shows "0 \<le> px - fst (src_origin s)" and "px - fst (src_origin s) \<le> src_w s - 1"
    and "0 \<le> py - snd (src_origin s)" and "py - snd (src_origin s) \<le> src_h s - 1"
proof -
  have x: "static_cast_int (real_of_int px + d) = px \<or> static_cast_int (real_of_int px + d) = px + 1"
    using assms(3) unfolding static_cast_int_def by (auto; linarith)
  have x': "0 \<le> real_of_int px + d \<Longrightarrow> static_cast_int (real_of_int px + d) = px"
    using assms(3) unfolding static_cast_int_def by (auto; linarith)
  have y: "static_cast_int (real_of_int py + 1 / 2) = (if 0 \<le> py then py else py + 1)"
    unfolding static_cast_int_def by (auto; linarith)
  from assms(1,2) have b: "fst (src_origin s) < static_cast_int (real_of_int px + d)"
    "static_cast_int (real_of_int px + d) < fst (src_origin s) + src_w s"
    "snd (src_origin s) < static_cast_int (real_of_int py + 1 / 2)"
    "static_cast_int (real_of_int py + 1 / 2) < snd (src_origin s) + src_h s"
    by (simp_all add: source_contains_def source_wf_def Let_def)
  from b(1,2) x show "0 \<le> px - fst (src_origin s)" by auto
  from b(1,2) x show "px - fst (src_origin s) \<le> src_w s - 1" by auto
  from b(3,4) y show "0 \<le> py - snd (src_origin s)" by (auto split: if_splits)
  from b(3,4) y show "py - snd (src_origin s) \<le> src_h s - 1" by (auto split: if_splits)
qed

lemma bilinear_at_int: "bilinear I (real_of_int j) (real_of_int i) = I i j"
  by (simp add: bilinear_def)

lemma bilinear_at_half:
  "bilinear I (real_of_int j + 1 / 2) (real_of_int i) = (I i j + I i (j + 1)) / 2"
proof -
  have fl: "\<lfloor>real_of_int j + 1 / 2\<rfloor> = j" by linarith
  then have fr: "frac (real_of_int j + 1 / 2) = 1 / 2" by (simp add: frac_def)
  show ?thesis
    unfolding bilinear_def Let_def fl fr by (simp add: field_simps)
qed

lemma clamped_pixel_inside:
  assumes "0 \<le> i" and "i \<le> src_h s - 1" and "0 \<le> j" and "j \<le> src_w s - 1"
  shows "clamped_pixel s ch i j = real (unat (elems ch i j))"
  unfolding clamped_pixel_def relocate_int_fixed [OF assms(1,2)] relocate_int_fixed [OF assms(3,4)]
  by (rule refl)

lemma get_pixel_at_center:
  assumes "source_contains s (real_of_int px) (real_of_int py)" and "source_wf s"
  shows "get_linear_interpolated_pixel s (real_of_int px) (real_of_int py) =
           Some (elems (fst (channels s)) (py - snd (src_origin s)) (px - fst (src_origin s)),
                 elems (fst (snd (channels s))) (py - snd (src_origin s)) (px - fst (src_origin s)),
                 elems (snd (snd (channels s))) (py - snd (src_origin s)) (px - fst (src_origin s)))"
proof -
  have c: "source_contains s (real_of_int px + 0) (real_of_int py)" using assms(1) by simp
  have b: "0 \<le> px - fst (src_origin s)" "px - fst (src_origin s) \<le> src_w s - 1"
    "0 \<le> py - snd (src_origin s)" "py - snd (src_origin s) \<le> src_h s - 1"
    using contains_int_pixel [OF c assms(2)] by simp_all
  have f: "real_of_int px - real_of_int (fst (src_origin s)) = real_of_int (px - fst (src_origin s))"
    "real_of_int py - real_of_int (snd (src_origin s)) = real_of_int (py - snd (src_origin s))"
    by simp_all
  show ?thesis
    unfolding get_pixel_inside [OF assms] f bilinear_at_int
      clamped_pixel_inside [OF b(3,4,1,2)] uchar_of_double_unat
    by (rule refl)
qed

lemma get_pixel_at_midpoint:
  assumes "source_contains s (real_of_int px + 1 / 2) (real_of_int py)" and "source_wf s"
    and "px + 1 < fst (src_end_points s)"
  shows "get_linear_interpolated_pixel s (real_of_int px + 1 / 2) (real_of_int py) =
           Some (half_sum (elems (fst (channels s)) (py - snd (src_origin s)) (px - fst (src_origin s)))
                          (elems (fst (channels s)) (py - snd (src_origin s)) (px + 1 - fst (src_origin s))),
                 half_sum (elems (fst (snd (channels s))) (py - snd (src_origin s)) (px - fst (src_origin s)))
                          (elems (fst (snd (channels s))) (py - snd (src_origin s)) (px + 1 - fst (src_origin s))),
                 half_sum (elems (snd (snd (channels s))) (py - snd (src_origin s)) (px - fst (src_origin s)))
                          (elems (snd (snd (channels s))) (py - snd (src_origin s)) (px + 1 - fst (src_origin s))))"
proof -
  have b: "0 \<le> px - fst (src_origin s)" "px - fst (src_origin s) \<le> src_w s - 1"
    "0 \<le> py - snd (src_origin s)" "py - snd (src_origin s) \<le> src_h s - 1"
    using contains_int_pixel [OF assms(1,2)] by simp_all
  have up: "0 \<le> px + 1 - fst (src_origin s)" "px + 1 - fst (src_origin s) \<le> src_w s - 1"
    using assms(2,3) b(1) by (simp_all add: source_wf_def)
  have f: "real_of_int px + 1 / 2 - real_of_int (fst (src_origin s)) = real_of_int (px - fst (src_origin s)) + 1 / 2"
    "real_of_int py - real_of_int (snd (src_origin s)) = real_of_int (py - snd (src_origin s))"
    by simp_all
  have g: "px - fst (src_origin s) + 1 = px + 1 - fst (src_origin s)" by simp
  show ?thesis
    unfolding get_pixel_inside [OF assms(1,2)] f bilinear_at_half
      clamped_pixel_inside [OF b(3,4,1,2)] clamped_pixel_inside [OF b(3,4) up] uchar_of_double_mean g
    by (rule refl)
qed

text \<open>
  C3. For every coordinate outside \<open>contains()\<close>, \<open>get_linear_interpolated_pixel\<close>
  returns black \<open>(0, 0, 0)\<close>, as a value and with no failure. For every coordinate
  inside, on a source whose end points are its origin plus its size and whose channel
  grids cover that size, it returns per channel the bilinear interpolation of the four
  neighbouring pixels (each index clamped by \<open>relocate\<close>), stored as a byte with the
  fraction dropped. So, inside the region, a coordinate exactly at an integer pixel
  returns that pixel's exact value, and the midpoint of two horizontally adjacent
  pixels with values \<open>a\<close> and \<open>b\<close> returns \<open>(a + b) / 2\<close> with the fraction dropped,
  which is within \<open>1 / 2\<close> of \<open>(a + b) / 2\<close>.
\<close>

theorem interpolated_pixel:
  "(\<not> source_contains s beta1 beta2 \<longrightarrow>
      get_linear_interpolated_pixel s beta1 beta2 = Some (0, 0, 0))
   \<and> (source_wf s \<and> source_contains s beta1 beta2 \<longrightarrow>
      get_linear_interpolated_pixel s beta1 beta2 =
        Some (uchar_of_double (bilinear (clamped_pixel s (fst (channels s)))
                 (beta1 - real_of_int (fst (src_origin s))) (beta2 - real_of_int (snd (src_origin s)))),
              uchar_of_double (bilinear (clamped_pixel s (fst (snd (channels s))))
                 (beta1 - real_of_int (fst (src_origin s))) (beta2 - real_of_int (snd (src_origin s)))),
              uchar_of_double (bilinear (clamped_pixel s (snd (snd (channels s))))
                 (beta1 - real_of_int (fst (src_origin s))) (beta2 - real_of_int (snd (src_origin s))))))
   \<and> (source_wf s \<and> source_contains s (real_of_int px) (real_of_int py) \<longrightarrow>
      get_linear_interpolated_pixel s (real_of_int px) (real_of_int py) =
        Some (elems (fst (channels s)) (py - snd (src_origin s)) (px - fst (src_origin s)),
              elems (fst (snd (channels s))) (py - snd (src_origin s)) (px - fst (src_origin s)),
              elems (snd (snd (channels s))) (py - snd (src_origin s)) (px - fst (src_origin s))))
   \<and> (source_wf s \<and> source_contains s (real_of_int px + 1 / 2) (real_of_int py)
        \<and> px + 1 < fst (src_end_points s) \<longrightarrow>
      get_linear_interpolated_pixel s (real_of_int px + 1 / 2) (real_of_int py) =
        Some (half_sum (elems (fst (channels s)) (py - snd (src_origin s)) (px - fst (src_origin s)))
                       (elems (fst (channels s)) (py - snd (src_origin s)) (px + 1 - fst (src_origin s))),
              half_sum (elems (fst (snd (channels s))) (py - snd (src_origin s)) (px - fst (src_origin s)))
                       (elems (fst (snd (channels s))) (py - snd (src_origin s)) (px + 1 - fst (src_origin s))),
              half_sum (elems (snd (snd (channels s))) (py - snd (src_origin s)) (px - fst (src_origin s)))
                       (elems (snd (snd (channels s))) (py - snd (src_origin s)) (px + 1 - fst (src_origin s)))))
   \<and> \<bar>real (unat (half_sum a b)) - (real (unat a) + real (unat b)) / 2\<bar> \<le> 1 / 2"
  using get_pixel_outside [of s beta1 beta2] get_pixel_inside [of s beta1 beta2]
    get_pixel_at_center [of s px py] get_pixel_at_midpoint [of s px py] half_sum_close [of a b]
  by blast

lemma source_demo_wf: "source_wf source_demo"
  by (simp add: source_demo_def source_wf_def sourceT_new_def source_move_def Let_def
        channel_covers_def split_channels_def)

lemma source_demo_fields:
  "src_origin source_demo = (6, 17)" "src_end_points source_demo = (15, 23)"
  "elems (fst (channels source_demo)) r c = word_of_int r"
  "elems (fst (snd (channels source_demo))) r c = word_of_int c"
  "elems (snd (snd (channels source_demo))) r c = 7"
  by (simp_all add: source_demo_def sourceT_new_def source_move_def Let_def image_demo_def
        split_channels_def signed_divide_int_def)

theorem interpolated_pixel_witness:
  "get_linear_interpolated_pixel source_demo 3 (41 / 2) = Some (0, 0, 0)
   \<and> get_linear_interpolated_pixel source_demo 8 19 = Some (2, 2, 7)
   \<and> get_linear_interpolated_pixel source_demo (8 + 1 / 2) 19 = Some (2, 2, 7)
   \<and> get_linear_interpolated_pixel source_demo (9 + 1 / 2) 19 = Some (2, 3, 7)"
proof -
  have c: "\<not> source_contains source_demo 3 (41 / 2)"
    "source_contains source_demo (real_of_int 8) (real_of_int 19)"
    "source_contains source_demo (real_of_int 8 + 1 / 2) (real_of_int 19)"
    "source_contains source_demo (real_of_int 9 + 1 / 2) (real_of_int 19)"
    by (simp_all add: source_contains_def source_demo_fields static_cast_int_def)
  have e: "(8::int) + 1 < fst (src_end_points source_demo)" "(9::int) + 1 < fst (src_end_points source_demo)"
    by (simp_all add: source_demo_fields)
  have h: "half_sum 2 3 = (2::uchar)" "half_sum 3 4 = (3::uchar)" "half_sum 2 2 = (2::uchar)"
    "half_sum 7 7 = (7::uchar)"
    by (simp_all add: half_sum_def)
  from interpolated_pixel [of source_demo 3 "41 / 2" 8 19] c(1,2,3) e(1) source_demo_wf
  have 1: "get_linear_interpolated_pixel source_demo 3 (41 / 2) = Some (0, 0, 0)"
    and 2: "get_linear_interpolated_pixel source_demo 8 19 = Some (2, 2, 7)"
    and 3: "get_linear_interpolated_pixel source_demo (8 + 1 / 2) 19 = Some (2, 2, 7)"
    by (simp_all add: source_demo_fields h)
  from interpolated_pixel [of source_demo 3 "41 / 2" 9 19] c(4) e(2) source_demo_wf
  have 4: "get_linear_interpolated_pixel source_demo (9 + 1 / 2) 19 = Some (2, 3, 7)"
    by (simp add: source_demo_fields h)
  from 1 2 3 4 show ?thesis by simp
qed

section \<open>Counted loops, shifts and derivatives\<close>

lemma for_loop_invariant:
  assumes "a \<le> b" and "P a s"
    and "\<And>k t. a \<le> k \<Longrightarrow> k < b \<Longrightarrow> P k t \<Longrightarrow> \<exists>t'. body k t = Some t' \<and> P (k + 1) t'"
  shows "\<exists>t. for_loop a b body s = Some t \<and> P b t"
  using assms
proof (induction "nat (b - a)" arbitrary: a s)
  case 0
  then have "a = b" by simp
  with 0 show ?case by (simp add: for_loop.simps)
next
  case (Suc n)
  then have lt: "a < b" by simp
  from Suc.prems(3) [of a s] lt Suc.prems(2)
  obtain t' where t': "body a s = Some t'" "P (a + 1) t'" by auto
  have "\<exists>t. for_loop (a + 1) b body t' = Some t \<and> P b t"
  proof (rule Suc.hyps(1))
    show "n = nat (b - (a + 1))" using Suc.hyps(2) by simp
    show "a + 1 \<le> b" using lt by simp
    show "P (a + 1) t'" by (rule t'(2))
    show "\<And>k t. a + 1 \<le> k \<Longrightarrow> k < b \<Longrightarrow> P k t \<Longrightarrow> \<exists>t'. body k t = Some t' \<and> P (k + 1) t'"
      using Suc.prems(3) by simp
  qed
  then show ?case
    using lt t'(1) by (subst for_loop.simps) simp
qed

lemma translate_right:
  assumes "1 \<le> cols f" and "0 \<le> rows f"
  shows "\<exists>t. translateImg f 1 ShiftRight = Some t \<and> rows t = rows f \<and> cols t = cols f
     \<and> (\<forall>r c. elems t r c = (if 0 \<le> r \<and> r < rows f \<and> 0 \<le> c \<and> c < cols f - 1 then elems f r (c + 1) else 0))"
  using assms by (auto simp: translateImg_def copy_rect_def rect_ok_def in_rect_def mat_const_def Let_def)

lemma translate_left:
  assumes "1 \<le> cols f" and "0 \<le> rows f"
  shows "\<exists>t. translateImg f 1 ShiftLeft = Some t \<and> rows t = rows f \<and> cols t = cols f
     \<and> (\<forall>r c. elems t r c = (if 0 \<le> r \<and> r < rows f \<and> 1 \<le> c \<and> c < cols f then elems f r (c - 1) else 0))"
  using assms by (auto simp: translateImg_def copy_rect_def rect_ok_def in_rect_def mat_const_def Let_def)

lemma translate_up:
  assumes "0 \<le> cols f" and "1 \<le> rows f"
  shows "\<exists>t. translateImg f 1 ShiftUp = Some t \<and> rows t = rows f \<and> cols t = cols f
     \<and> (\<forall>r c. elems t r c = (if 0 \<le> r \<and> r < rows f - 1 \<and> 0 \<le> c \<and> c < cols f then elems f (r + 1) c else 0))"
  using assms by (auto simp: translateImg_def copy_rect_def rect_ok_def in_rect_def mat_const_def Let_def)

lemma translate_down:
  assumes "0 \<le> cols f" and "1 \<le> rows f"
  shows "\<exists>t. translateImg f 1 ShiftDown = Some t \<and> rows t = rows f \<and> cols t = cols f
     \<and> (\<forall>r c. elems t r c = (if 1 \<le> r \<and> r < rows f \<and> 0 \<le> c \<and> c < cols f then elems f (r - 1) c else 0))"
  using assms by (auto simp: translateImg_def copy_rect_def rect_ok_def in_rect_def mat_const_def Let_def)


lemma deriv_x_border_step:
  assumes "0 \<le> i" and "i < rows m" and "4 \<le> cols m"
  shows "\<exists>m'. deriv_x_border i m = Some m' \<and> rows m' = rows m \<and> cols m' = cols m
     \<and> (\<forall>r c. elems m' r c =
           (if r = i \<and> (c = 0 \<or> c = 1) then elems m i 2
            else if r = i \<and> (c = cols m - 1 \<or> c = cols m - 2) then elems m i (cols m - 3)
            else elems m r c))"
  using assms
  by (auto simp: deriv_x_border_def mat_at_def mat_put_def in_range_def Let_def)

lemma deriv_y_border_step:
  assumes "0 \<le> i" and "i < cols m" and "4 \<le> rows m"
  shows "\<exists>m'. deriv_y_border i m = Some m' \<and> rows m' = rows m \<and> cols m' = cols m
     \<and> (\<forall>r c. elems m' r c =
           (if c = i \<and> (r = 0 \<or> r = 1) then elems m 2 i
            else if c = i \<and> (r = rows m - 1 \<or> r = rows m - 2) then elems m (rows m - 3) i
            else elems m r c))"
  using assms
  by (auto simp: deriv_y_border_def mat_at_def mat_put_def in_range_def Let_def)

lemma deriv_x_border_loop:
  assumes "4 \<le> cols m" and "0 \<le> rows m"
  shows "\<exists>t. for_loop 0 (rows m) deriv_x_border m = Some t \<and> rows t = rows m \<and> cols t = cols m
     \<and> (\<forall>r c. elems t r c =
           (if 0 \<le> r \<and> r < rows m \<and> (c = 0 \<or> c = 1) then elems m r 2
            else if 0 \<le> r \<and> r < rows m \<and> (c = cols m - 1 \<or> c = cols m - 2) then elems m r (cols m - 3)
            else elems m r c))"
proof -
  define P where "P k t \<longleftrightarrow> rows t = rows m \<and> cols t = cols m
     \<and> (\<forall>r c. elems t r c =
           (if 0 \<le> r \<and> r < k \<and> (c = 0 \<or> c = 1) then elems m r 2
            else if 0 \<le> r \<and> r < k \<and> (c = cols m - 1 \<or> c = cols m - 2) then elems m r (cols m - 3)
            else elems m r c))" for k and t :: "real Mat"
  have "\<exists>t. for_loop 0 (rows m) deriv_x_border m = Some t \<and> P (rows m) t"
  proof (rule for_loop_invariant)
    show "0 \<le> rows m" by (rule assms(2))
    show "P 0 m" by (simp add: P_def)
    fix k t assume k: "0 \<le> k" "k < rows m" and p: "P k t"
    from p have d: "rows t = rows m" "cols t = cols m" by (simp_all add: P_def)
    from deriv_x_border_step [of k t] k d assms(1)
    obtain t' where t': "deriv_x_border k t = Some t'" "rows t' = rows t" "cols t' = cols t"
      "\<forall>r c. elems t' r c =
           (if r = k \<and> (c = 0 \<or> c = 1) then elems t k 2
            else if r = k \<and> (c = cols t - 1 \<or> c = cols t - 2) then elems t k (cols t - 3)
            else elems t r c)"
      by auto
    have "P (k + 1) t'"
      unfolding P_def using t'(2,3,4) p k assms(1) by (auto simp: P_def d)
    with t'(1) show "\<exists>t'. deriv_x_border k t = Some t' \<and> P (k + 1) t'" by blast
  qed
  then show ?thesis by (simp add: P_def)
qed

lemma deriv_y_border_loop:
  assumes "4 \<le> rows m" and "0 \<le> cols m"
  shows "\<exists>t. for_loop 0 (cols m) deriv_y_border m = Some t \<and> rows t = rows m \<and> cols t = cols m
     \<and> (\<forall>r c. elems t r c =
           (if 0 \<le> c \<and> c < cols m \<and> (r = 0 \<or> r = 1) then elems m 2 c
            else if 0 \<le> c \<and> c < cols m \<and> (r = rows m - 1 \<or> r = rows m - 2) then elems m (rows m - 3) c
            else elems m r c))"
proof -
  define P where "P k t \<longleftrightarrow> rows t = rows m \<and> cols t = cols m
     \<and> (\<forall>r c. elems t r c =
           (if 0 \<le> c \<and> c < k \<and> (r = 0 \<or> r = 1) then elems m 2 c
            else if 0 \<le> c \<and> c < k \<and> (r = rows m - 1 \<or> r = rows m - 2) then elems m (rows m - 3) c
            else elems m r c))" for k and t :: "real Mat"
  have "\<exists>t. for_loop 0 (cols m) deriv_y_border m = Some t \<and> P (cols m) t"
  proof (rule for_loop_invariant)
    show "0 \<le> cols m" by (rule assms(2))
    show "P 0 m" by (simp add: P_def)
    fix k t assume k: "0 \<le> k" "k < cols m" and p: "P k t"
    from p have d: "rows t = rows m" "cols t = cols m" by (simp_all add: P_def)
    from deriv_y_border_step [of k t] k d assms(1)
    obtain t' where t': "deriv_y_border k t = Some t'" "rows t' = rows t" "cols t' = cols t"
      "\<forall>r c. elems t' r c =
           (if c = k \<and> (r = 0 \<or> r = 1) then elems t 2 k
            else if c = k \<and> (r = rows t - 1 \<or> r = rows t - 2) then elems t (rows t - 3) k
            else elems t r c)"
      by auto
    have "P (k + 1) t'"
      unfolding P_def using t'(2,3,4) p k assms(1) by (auto simp: P_def d)
    with t'(1) show "\<exists>t'. deriv_y_border k t = Some t' \<and> P (k + 1) t'" by blast
  qed
  then show ?thesis by (simp add: P_def)
qed

lemma deriv_x_result:
  assumes "4 \<le> cols input" and "0 \<le> rows input"
  shows "\<exists>res. deriv_x input = Some res \<and> rows res = rows input \<and> cols res = cols input
     \<and> (\<forall>r c. 0 \<le> r \<and> r < rows input \<and> 0 \<le> c \<and> c < cols input \<longrightarrow>
            elems res r c = central_x input r (nearest_interior (cols input) c))"
proof -
  from translate_right [of input] assms obtain xp1 where
    xp1: "translateImg input 1 ShiftRight = Some xp1" "rows xp1 = rows input" "cols xp1 = cols input"
      "\<forall>r c. elems xp1 r c = (if 0 \<le> r \<and> r < rows input \<and> 0 \<le> c \<and> c < cols input - 1 then elems input r (c + 1) else 0)"
    by auto
  from translate_left [of input] assms obtain xm1 where
    xm1: "translateImg input 1 ShiftLeft = Some xm1" "rows xm1 = rows input" "cols xm1 = cols input"
      "\<forall>r c. elems xm1 r c = (if 0 \<le> r \<and> r < rows input \<and> 1 \<le> c \<and> c < cols input then elems input r (c - 1) else 0)"
    by auto
  define res0 where "res0 = half_difference xp1 xm1"
  have d0: "rows res0 = rows input" "cols res0 = cols input"
    by (simp_all add: res0_def half_difference_def xp1)
  have e0: "\<And>r c. 0 \<le> r \<Longrightarrow> r < rows input \<Longrightarrow> 1 \<le> c \<Longrightarrow> c < cols input - 1 \<Longrightarrow>
      elems res0 r c = central_x input r c"
    by (simp add: res0_def half_difference_def xp1(4) xm1(4) central_x_def)
  from deriv_x_border_loop [of res0] assms d0 obtain t where
    t: "for_loop 0 (rows res0) deriv_x_border res0 = Some t" "rows t = rows res0" "cols t = cols res0"
      "\<forall>r c. elems t r c =
           (if 0 \<le> r \<and> r < rows res0 \<and> (c = 0 \<or> c = 1) then elems res0 r 2
            else if 0 \<le> r \<and> r < rows res0 \<and> (c = cols res0 - 1 \<or> c = cols res0 - 2) then elems res0 r (cols res0 - 3)
            else elems res0 r c)"
    by auto
  have "deriv_x input = Some t"
    by (simp add: deriv_x_def xp1(1) xm1(1) res0_def [symmetric] t(1))
  moreover have "elems t r c = central_x input r (nearest_interior (cols input) c)"
    if "0 \<le> r \<and> r < rows input \<and> 0 \<le> c \<and> c < cols input" for r c
    using that assms(1) e0 [of r 2] e0 [of r "cols input - 3"] e0 [of r c]
    by (auto simp: t(4) d0 nearest_interior_def)
  ultimately show ?thesis
    using t(2,3) d0 by auto
qed

lemma deriv_y_result:
  assumes "4 \<le> rows input" and "0 \<le> cols input"
  shows "\<exists>res. deriv_y input = Some res \<and> rows res = rows input \<and> cols res = cols input
     \<and> (\<forall>r c. 0 \<le> r \<and> r < rows input \<and> 0 \<le> c \<and> c < cols input \<longrightarrow>
            elems res r c = central_y input (nearest_interior (rows input) r) c)"
proof -
  from translate_up [of input] assms obtain yp1 where
    yp1: "translateImg input 1 ShiftUp = Some yp1" "rows yp1 = rows input" "cols yp1 = cols input"
      "\<forall>r c. elems yp1 r c = (if 0 \<le> r \<and> r < rows input - 1 \<and> 0 \<le> c \<and> c < cols input then elems input (r + 1) c else 0)"
    by auto
  from translate_down [of input] assms obtain ym1 where
    ym1: "translateImg input 1 ShiftDown = Some ym1" "rows ym1 = rows input" "cols ym1 = cols input"
      "\<forall>r c. elems ym1 r c = (if 1 \<le> r \<and> r < rows input \<and> 0 \<le> c \<and> c < cols input then elems input (r - 1) c else 0)"
    by auto
  define res0 where "res0 = half_difference yp1 ym1"
  have d0: "rows res0 = rows input" "cols res0 = cols input"
    by (simp_all add: res0_def half_difference_def yp1)
  have e0: "\<And>r c. 1 \<le> r \<Longrightarrow> r < rows input - 1 \<Longrightarrow> 0 \<le> c \<Longrightarrow> c < cols input \<Longrightarrow>
      elems res0 r c = central_y input r c"
    by (simp add: res0_def half_difference_def yp1(4) ym1(4) central_y_def)
  from deriv_y_border_loop [of res0] assms d0 obtain t where
    t: "for_loop 0 (cols res0) deriv_y_border res0 = Some t" "rows t = rows res0" "cols t = cols res0"
      "\<forall>r c. elems t r c =
           (if 0 \<le> c \<and> c < cols res0 \<and> (r = 0 \<or> r = 1) then elems res0 2 c
            else if 0 \<le> c \<and> c < cols res0 \<and> (r = rows res0 - 1 \<or> r = rows res0 - 2) then elems res0 (rows res0 - 3) c
            else elems res0 r c)"
    by auto
  have "deriv_y input = Some t"
    by (simp add: deriv_y_def yp1(1) ym1(1) res0_def [symmetric] t(1))
  moreover have "elems t r c = central_y input (nearest_interior (rows input) r) c"
    if "0 \<le> r \<and> r < rows input \<and> 0 \<le> c \<and> c < cols input" for r c
    using that assms(1) e0 [of 2 c] e0 [of "rows input - 3" c] e0 [of r c]
    by (auto simp: t(4) d0 nearest_interior_def)
  ultimately show ?thesis
    using t(2,3) d0 by auto
qed

lemma central_before_border_x:
  assumes "1 \<le> cols input" and "0 \<le> rows input"
  shows "\<exists>xp1 xm1. translateImg input 1 ShiftRight = Some xp1 \<and> translateImg input 1 ShiftLeft = Some xm1
     \<and> (\<forall>r c. 0 \<le> r \<and> r < rows input \<and> 1 \<le> c \<and> c \<le> cols input - 2 \<longrightarrow>
            elems (half_difference xp1 xm1) r c = central_x input r c)"
  using translate_right [OF assms] translate_left [OF assms]
  by (auto simp: half_difference_def central_x_def)

lemma central_before_border_y:
  assumes "0 \<le> cols input" and "1 \<le> rows input"
  shows "\<exists>yp1 ym1. translateImg input 1 ShiftUp = Some yp1 \<and> translateImg input 1 ShiftDown = Some ym1
     \<and> (\<forall>r c. 1 \<le> r \<and> r \<le> rows input - 2 \<and> 0 \<le> c \<and> c < cols input \<longrightarrow>
            elems (half_difference yp1 ym1) r c = central_y input r c)"
  using translate_up [OF assms] translate_down [OF assms]
  by (auto simp: half_difference_def central_y_def)

text \<open>
  C7. For every grid with at least 5 columns, \<open>deriv_x\<close> returns a grid of the same
  size. Before the border loop, the half difference of the two shifted grids is the
  central difference \<open>(f(r, c + 1) - f(r, c - 1)) / 2\<close> at every cell that is not in the
  first or last column. The loop then overwrites the columns \<open>0\<close> and \<open>1\<close> with the
  value of column \<open>2\<close> and the columns \<open>N - 1\<close> and \<open>N - 2\<close> with the value of column
  \<open>N - 3\<close>, so that every cell of the output is the central difference at the nearest
  column in \<open>[2, N - 3]\<close>: a difference of two cells of the input, never of a padded
  zero. The same holds for \<open>deriv_y\<close> and rows.
\<close>

theorem derivative_replicate_border:
  "(5 \<le> cols input \<and> 0 \<le> rows input \<longrightarrow>
      (\<exists>xp1 xm1. translateImg input 1 ShiftRight = Some xp1 \<and> translateImg input 1 ShiftLeft = Some xm1
         \<and> (\<forall>r c. 0 \<le> r \<and> r < rows input \<and> 1 \<le> c \<and> c \<le> cols input - 2 \<longrightarrow>
                elems (half_difference xp1 xm1) r c = central_x input r c))
    \<and> (\<exists>res. deriv_x input = Some res \<and> rows res = rows input \<and> cols res = cols input
         \<and> (\<forall>r c. 0 \<le> r \<and> r < rows input \<and> 0 \<le> c \<and> c < cols input \<longrightarrow>
                elems res r c = central_x input r (nearest_interior (cols input) c))))
   \<and> (5 \<le> rows input \<and> 0 \<le> cols input \<longrightarrow>
      (\<exists>yp1 ym1. translateImg input 1 ShiftUp = Some yp1 \<and> translateImg input 1 ShiftDown = Some ym1
         \<and> (\<forall>r c. 1 \<le> r \<and> r \<le> rows input - 2 \<and> 0 \<le> c \<and> c < cols input \<longrightarrow>
                elems (half_difference yp1 ym1) r c = central_y input r c))
    \<and> (\<exists>res. deriv_y input = Some res \<and> rows res = rows input \<and> cols res = cols input
         \<and> (\<forall>r c. 0 \<le> r \<and> r < rows input \<and> 0 \<le> c \<and> c < cols input \<longrightarrow>
                elems res r c = central_y input (nearest_interior (rows input) r) c)))
   \<and> (5 \<le> n \<and> 0 \<le> k \<and> k < n \<longrightarrow>
        2 \<le> nearest_interior n k \<and> nearest_interior n k \<le> n - 3
        \<and> (2 \<le> k \<and> k \<le> n - 3 \<longrightarrow> nearest_interior n k = k)
        \<and> (k < 2 \<longrightarrow> nearest_interior n k = 2)
        \<and> (n - 3 < k \<longrightarrow> nearest_interior n k = n - 3))"
proof -
  have x: "5 \<le> cols input \<and> 0 \<le> rows input \<Longrightarrow> 4 \<le> cols input \<and> 1 \<le> cols input \<and> 0 \<le> rows input"
    and y: "5 \<le> rows input \<and> 0 \<le> cols input \<Longrightarrow> 4 \<le> rows input \<and> 1 \<le> rows input \<and> 0 \<le> cols input"
    by simp_all
  have n: "5 \<le> n \<and> 0 \<le> k \<and> k < n \<longrightarrow>
        2 \<le> nearest_interior n k \<and> nearest_interior n k \<le> n - 3
        \<and> (2 \<le> k \<and> k \<le> n - 3 \<longrightarrow> nearest_interior n k = k)
        \<and> (k < 2 \<longrightarrow> nearest_interior n k = 2)
        \<and> (n - 3 < k \<longrightarrow> nearest_interior n k = n - 3)"
    by (simp add: nearest_interior_def)
  show ?thesis
    using deriv_x_result [of input] deriv_y_result [of input]
      central_before_border_x [of input] central_before_border_y [of input] x y n
    by blast
qed

theorem derivative_replicate_border_witness:
  "(\<exists>res. deriv_x grid_demo = Some res \<and> elems res 1 0 = 13 \<and> elems res 1 1 = 13
        \<and> elems res 1 2 = 13 \<and> elems res 1 3 = 28 \<and> elems res 1 4 = 28 \<and> elems res 1 5 = 28)
   \<and> (\<exists>res. deriv_y grid_demo = Some res \<and> elems res 0 3 = 4 \<and> elems res 1 3 = 4
        \<and> elems res 2 3 = 4 \<and> elems res 3 3 = 4 \<and> elems res 4 3 = 4)"
proof -
  note w = derivative_replicate_border [of grid_demo 6 0]
  have d: "rows grid_demo = 5" "cols grid_demo = 6" by (simp_all add: grid_demo_def)
  from w d obtain rx where
    rx: "deriv_x grid_demo = Some rx"
      "\<forall>r c. 0 \<le> r \<and> r < 5 \<and> 0 \<le> c \<and> c < 6 \<longrightarrow>
         elems rx r c = central_x grid_demo r (nearest_interior 6 c)"
    by auto
  from w d obtain ry where
    ry: "deriv_y grid_demo = Some ry"
      "\<forall>r c. 0 \<le> r \<and> r < 5 \<and> 0 \<le> c \<and> c < 6 \<longrightarrow>
         elems ry r c = central_y grid_demo (nearest_interior 5 r) c"
    by auto
  have "elems rx 1 0 = 13" "elems rx 1 1 = 13" "elems rx 1 2 = 13"
    "elems rx 1 3 = 28" "elems rx 1 4 = 28" "elems rx 1 5 = 28"
    by (simp_all add: rx(2) central_x_def nearest_interior_def grid_demo_def)
  moreover have "elems ry 0 3 = 4" "elems ry 1 3 = 4" "elems ry 2 3 = 4"
    "elems ry 3 3 = 4" "elems ry 4 3 = 4"
    by (simp_all add: ry(2) central_y_def nearest_interior_def grid_demo_def)
  ultimately show ?thesis
    using rx(1) ry(1) by simp
qed

section \<open>The Green's function kernel\<close>

lemma quadrant_offset_iff:
  assumes "0 \<le> r" and "r < n" and "0 \<le> i" and "i \<le> n div 2"
  shows "(r = i \<or> (i \<noteq> 0 \<and> r = n - i)) \<longleftrightarrow> quadrant_offset n r = i"
  using assms unfolding quadrant_offset_def by auto

lemma quadrant_offset_range:
  assumes "0 \<le> r" and "r < n"
  shows "0 \<le> quadrant_offset n r" and "quadrant_offset n r \<le> n div 2"
  using assms unfolding quadrant_offset_def by auto

lemma quadrant_offset_not_negative:
  "0 \<le> r \<Longrightarrow> r < n \<Longrightarrow> quadrant_offset n r < 0 \<Longrightarrow> False"
  unfolding quadrant_offset_def by (auto split: if_splits)

lemma quadrant_offset_mirror:
  assumes "0 \<le> r" and "r < n"
  shows "quadrant_offset n ((n - r) mod n) = quadrant_offset n r"
proof (cases "r = 0")
  case True
  then show ?thesis using assms by simp
next
  case False
  then have "(n - r) mod n = n - r"
    by (intro mod_pos_pos_trivial) (use assms in auto)
  then show ?thesis using assms False unfolding quadrant_offset_def by auto
qed

lemma green_cell_step:
  assumes "rows g = Y" and "cols g = X" and "0 \<le> i" and "i \<le> Y div 2" and "0 \<le> j" and "j \<le> X div 2"
    and "1 \<le> X" and "1 \<le> Y"
  shows "\<exists>g'. green_cell X Y i j g = Some g' \<and> rows g' = Y \<and> cols g' = X
     \<and> (\<forall>r c. elems g' r c =
           (if (r = i \<or> (i \<noteq> 0 \<and> r = Y - i)) \<and> (c = j \<or> (j \<noteq> 0 \<and> c = X - j))
            then green_val i j else elems g r c))"
proof -
  have b: "i < Y" "j < X" "i \<noteq> 0 \<Longrightarrow> 0 \<le> Y - i \<and> Y - i < Y" "j \<noteq> 0 \<Longrightarrow> 0 \<le> X - j \<and> X - j < X"
    using assms by auto
  show ?thesis
    using assms(1,2,3,5) b
    by (auto simp: green_cell_def mat_put_def in_range_def Let_def)
qed


lemma green_cell_offsets:
  assumes "rows g = Y" and "cols g = X" and "0 \<le> i" and "i \<le> Y div 2" and "0 \<le> j" and "j \<le> X div 2"
    and "1 \<le> X" and "1 \<le> Y"
  shows "\<exists>g'. green_cell X Y i j g = Some g' \<and> rows g' = Y \<and> cols g' = X
     \<and> (\<forall>r c. elems g' r c =
           (if 0 \<le> r \<and> r < Y \<and> 0 \<le> c \<and> c < X \<and> quadrant_offset Y r = i \<and> quadrant_offset X c = j
            then green_val i j else elems g r c))"
proof -
  from green_cell_step [OF assms] obtain g' where
    g': "green_cell X Y i j g = Some g'" "rows g' = Y" "cols g' = X"
      "\<forall>r c. elems g' r c =
           (if (r = i \<or> (i \<noteq> 0 \<and> r = Y - i)) \<and> (c = j \<or> (j \<noteq> 0 \<and> c = X - j))
            then green_val i j else elems g r c)"
    by auto
  have "((r = i \<or> (i \<noteq> 0 \<and> r = Y - i)) \<and> (c = j \<or> (j \<noteq> 0 \<and> c = X - j)))
      \<longleftrightarrow> (0 \<le> r \<and> r < Y \<and> 0 \<le> c \<and> c < X \<and> quadrant_offset Y r = i \<and> quadrant_offset X c = j)"
    for r c
  proof (cases "0 \<le> r \<and> r < Y \<and> 0 \<le> c \<and> c < X")
    case True
    then show ?thesis
      using quadrant_offset_iff [of r Y i] quadrant_offset_iff [of c X j] assms(3-6) by simp
  next
    case False
    then show ?thesis using assms(3-8) by auto
  qed
  with g' show ?thesis by simp
qed

lemma green_row_loop:
  assumes "rows g0 = Y" and "cols g0 = X" and "1 \<le> X" and "1 \<le> Y" and "0 \<le> i" and "i \<le> Y div 2"
  shows "\<exists>g. for_loop 0 (X div 2 + 1) (\<lambda>j g'. green_cell X Y i j g') g0 = Some g
     \<and> rows g = Y \<and> cols g = X
     \<and> (\<forall>r c. elems g r c =
           (if 0 \<le> r \<and> r < Y \<and> 0 \<le> c \<and> c < X \<and> quadrant_offset Y r = i
            then green_val i (quadrant_offset X c) else elems g0 r c))"
proof -
  define P where "P k g \<longleftrightarrow> rows g = Y \<and> cols g = X
     \<and> (\<forall>r c. elems g r c =
           (if 0 \<le> r \<and> r < Y \<and> 0 \<le> c \<and> c < X \<and> quadrant_offset Y r = i \<and> quadrant_offset X c < k
            then green_val i (quadrant_offset X c) else elems g0 r c))" for k and g :: "real Mat"
  have "\<exists>g. for_loop 0 (X div 2 + 1) (\<lambda>j g'. green_cell X Y i j g') g0 = Some g \<and> P (X div 2 + 1) g"
  proof (rule for_loop_invariant)
    show "0 \<le> X div 2 + 1" using assms(3) by simp
    show "P 0 g0"
      by (auto simp: P_def assms(1,2) dest: quadrant_offset_not_negative)
    fix k g assume k: "0 \<le> k" "k < X div 2 + 1" and p: "P k g"
    from p have d: "rows g = Y" "cols g = X" by (simp_all add: P_def)
    from green_cell_offsets [OF d assms(5,6) k(1) _ assms(3,4)] k(2)
    obtain g' where g': "green_cell X Y i k g = Some g'" "rows g' = Y" "cols g' = X"
      "\<forall>r c. elems g' r c =
           (if 0 \<le> r \<and> r < Y \<and> 0 \<le> c \<and> c < X \<and> quadrant_offset Y r = i \<and> quadrant_offset X c = k
            then green_val i k else elems g r c)"
      by auto
    have "P (k + 1) g'"
      unfolding P_def using g'(2,3,4) p by (auto simp: P_def)
    with g'(1) show "\<exists>g'. green_cell X Y i k g = Some g' \<and> P (k + 1) g'" by blast
  qed
  then obtain g where g: "for_loop 0 (X div 2 + 1) (\<lambda>j g'. green_cell X Y i j g') g0 = Some g"
    "P (X div 2 + 1) g" by blast
  have "quadrant_offset X c < X div 2 + 1" if "0 \<le> c" "c < X" for c
    using quadrant_offset_range(2) [OF that] by simp
  with g(2) have "\<forall>r c. elems g r c =
           (if 0 \<le> r \<and> r < Y \<and> 0 \<le> c \<and> c < X \<and> quadrant_offset Y r = i
            then green_val i (quadrant_offset X c) else elems g0 r c)"
    by (auto simp: P_def)
  with g show ?thesis by (auto simp: P_def)
qed

lemma fill_green_fct_cells:
  assumes "1 \<le> cols g0" and "1 \<le> rows g0"
  shows "\<exists>g. fill_green_fct g0 = Some g \<and> rows g = rows g0 \<and> cols g = cols g0
     \<and> (\<forall>r c. 0 \<le> r \<and> r < rows g0 \<and> 0 \<le> c \<and> c < cols g0 \<longrightarrow>
           elems g r c = green_val (quadrant_offset (rows g0) r) (quadrant_offset (cols g0) c))"
proof -
  define X Y where "X = cols g0" and "Y = rows g0"
  define Q where "Q k g \<longleftrightarrow> rows g = Y \<and> cols g = X
     \<and> (\<forall>r c. elems g r c =
           (if 0 \<le> r \<and> r < Y \<and> 0 \<le> c \<and> c < X \<and> quadrant_offset Y r < k
            then green_val (quadrant_offset Y r) (quadrant_offset X c) else elems g0 r c))"
    for k and g :: "real Mat"
  have xy: "1 \<le> X" "1 \<le> Y" using assms by (simp_all add: X_def Y_def)
  have "\<exists>g. for_loop 0 (Y div 2 + 1)
           (\<lambda>i g. for_loop 0 (X div 2 + 1) (\<lambda>j g'. green_cell X Y i j g') g) g0 = Some g
         \<and> Q (Y div 2 + 1) g"
  proof (rule for_loop_invariant)
    show "0 \<le> Y div 2 + 1" using xy by simp
    show "Q 0 g0"
      by (auto simp: Q_def X_def Y_def dest: quadrant_offset_not_negative)
    fix k g assume k: "0 \<le> k" "k < Y div 2 + 1" and q: "Q k g"
    from q have d: "rows g = Y" "cols g = X" by (simp_all add: Q_def)
    from green_row_loop [OF d xy k(1)] k(2)
    obtain g' where g': "for_loop 0 (X div 2 + 1) (\<lambda>j g'. green_cell X Y k j g') g = Some g'"
      "rows g' = Y" "cols g' = X"
      "\<forall>r c. elems g' r c =
           (if 0 \<le> r \<and> r < Y \<and> 0 \<le> c \<and> c < X \<and> quadrant_offset Y r = k
            then green_val k (quadrant_offset X c) else elems g r c)"
      by auto
    have "Q (k + 1) g'"
      unfolding Q_def using g'(2,3,4) q by (auto simp: Q_def)
    with g'(1) show "\<exists>g'. for_loop 0 (X div 2 + 1) (\<lambda>j g'. green_cell X Y k j g') g = Some g' \<and> Q (k + 1) g'"
      by blast
  qed
  then obtain g where g: "fill_green_fct g0 = Some g" "Q (Y div 2 + 1) g"
    by (auto simp: fill_green_fct_def Let_def X_def Y_def)
  have "quadrant_offset Y r < Y div 2 + 1" if "0 \<le> r" "r < Y" for r
    using quadrant_offset_range(2) [OF that] by simp
  with g(2) have "\<forall>r c. 0 \<le> r \<and> r < Y \<and> 0 \<le> c \<and> c < X \<longrightarrow>
           elems g r c = green_val (quadrant_offset Y r) (quadrant_offset X c)"
    by (auto simp: Q_def)
  with g show ?thesis by (auto simp: Q_def X_def Y_def)
qed

lemma fill_green_fct_symmetric:
  assumes "1 \<le> cols g0" and "1 \<le> rows g0"
  shows "\<exists>g. fill_green_fct g0 = Some g \<and> rows g = rows g0 \<and> cols g = cols g0
     \<and> (\<forall>r c. 0 \<le> r \<and> r < rows g0 \<and> 0 \<le> c \<and> c < cols g0 \<longrightarrow>
           elems g r c = elems g ((rows g0 - r) mod rows g0) ((cols g0 - c) mod cols g0))"
proof -
  from fill_green_fct_cells [OF assms] obtain g where
    g: "fill_green_fct g0 = Some g" "rows g = rows g0" "cols g = cols g0"
      "\<forall>r c. 0 \<le> r \<and> r < rows g0 \<and> 0 \<le> c \<and> c < cols g0 \<longrightarrow>
           elems g r c = green_val (quadrant_offset (rows g0) r) (quadrant_offset (cols g0) c)"
    by auto
  have "elems g r c = elems g ((rows g0 - r) mod rows g0) ((cols g0 - c) mod cols g0)"
    if rc: "0 \<le> r \<and> r < rows g0 \<and> 0 \<le> c \<and> c < cols g0" for r c
  proof -
    have m: "0 \<le> (rows g0 - r) mod rows g0" "(rows g0 - r) mod rows g0 < rows g0"
      "0 \<le> (cols g0 - c) mod cols g0" "(cols g0 - c) mod cols g0 < cols g0"
      using assms by simp_all
    have "elems g ((rows g0 - r) mod rows g0) ((cols g0 - c) mod cols g0)
        = green_val (quadrant_offset (rows g0) ((rows g0 - r) mod rows g0))
            (quadrant_offset (cols g0) ((cols g0 - c) mod cols g0))"
      using g(4) m by blast
    also have "\<dots> = green_val (quadrant_offset (rows g0) r) (quadrant_offset (cols g0) c)"
      using rc by (simp only: quadrant_offset_mirror)
    also have "\<dots> = elems g r c"
      using g(4) rc by simp
    finally show ?thesis by simp
  qed
  with g show ?thesis by blast
qed

lemma size_t_to_int_small:
  assumes "0 \<le> n" and "n < 2 ^ 31"
  shows "size_t_to_int n = n"
proof -
  have "(n + 2 ^ 31) mod 2 ^ 32 = n + 2 ^ 31"
    by (intro mod_pos_pos_trivial) (use assms in auto)
  then show ?thesis by (simp add: size_t_to_int_def)
qed

lemma square_bound:
  fixes i :: int
  assumes "0 \<le> i" and "i \<le> b"
  shows "0 \<le> i * i" and "i * i \<le> b * b"
  using assms by (auto intro: mult_mono)

lemma green_val_exact:
  assumes "0 \<le> i" and "i \<le> 46340" and "0 \<le> j" and "j < 2 ^ 31" and "i \<noteq> 0 \<or> j \<noteq> 0"
  shows "green_val i j = ln (sqrt (real_of_int (i ^ 2 + j ^ 2))) / pi"
proof -
  have ii: "0 \<le> i * i" "i * i \<le> 46340 * 46340"
    using square_bound [OF assms(1,2)] by simp_all
  have jj: "0 \<le> j * j" "j * j \<le> (2 ^ 31 - 1) * (2 ^ 31 - 1)"
    using square_bound [of j "2 ^ 31 - 1"] assms(3,4) by simp_all
  have a: "size_t_to_int (i * i) = i * i"
    using ii by (intro size_t_to_int_small) simp_all
  have b: "int_to_size_t (i * i) = i * i"
    unfolding int_to_size_t_def by (intro mod_pos_pos_trivial) (use ii in simp_all)
  have c: "int_to_size_t (i * i + j * j) = i * i + j * j"
    unfolding int_to_size_t_def by (intro mod_pos_pos_trivial) (use ii jj in simp_all)
  show ?thesis
    using assms(5) by (simp add: green_val_def Let_def a b c power2_eq_square)
qed

lemma green_val_wrapped:
  "green_val 46341 0 = ln (sqrt 18446744071562072601) / pi"
  by (simp add: green_val_def Let_def size_t_to_int_def int_to_size_t_def)

lemma ln_sqrt_inject:
  assumes "0 < a" and "0 < b" and "ln (sqrt a) / pi = ln (sqrt b) / pi"
  shows "a = b"
proof -
  from assms(3) have "ln (sqrt a) = ln (sqrt b)" by simp
  then have "sqrt a = sqrt b" using assms(1,2) by simp
  then show ?thesis by simp
qed

lemma green_val_wrapped_differs:
  "green_val 46341 0 \<noteq> ln (sqrt (real_of_int (46341 ^ 2 + 0 ^ 2))) / pi"
proof
  assume "green_val 46341 0 = ln (sqrt (real_of_int (46341 ^ 2 + 0 ^ 2))) / pi"
  then have e: "ln (sqrt 18446744071562072601) / pi = ln (sqrt 2147488281) / pi"
    by (simp add: green_val_wrapped)
  have "(18446744071562072601::real) = 2147488281"
    by (rule ln_sqrt_inject [OF _ _ e]) simp_all
  then show False by simp
qed

lemma fill_green_fct_exact:
  assumes "1 \<le> cols g0" and "cols g0 < 2 ^ 31" and "1 \<le> rows g0" and "rows g0 div 2 \<le> 46340"
  shows "\<exists>g. fill_green_fct g0 = Some g \<and> rows g = rows g0 \<and> cols g = cols g0
     \<and> (\<forall>r c. 0 \<le> r \<and> r < rows g0 \<and> 0 \<le> c \<and> c < cols g0 \<longrightarrow>
           elems g r c =
             (if quadrant_offset (rows g0) r = 0 \<and> quadrant_offset (cols g0) c = 0
              then - 14658711977588554 / 10000000000000000
              else ln (sqrt (real_of_int ((quadrant_offset (rows g0) r) ^ 2
                                          + (quadrant_offset (cols g0) c) ^ 2))) / pi))"
proof -
  from fill_green_fct_cells [OF assms(1,3)] obtain g where
    g: "fill_green_fct g0 = Some g" "rows g = rows g0" "cols g = cols g0"
      "\<forall>r c. 0 \<le> r \<and> r < rows g0 \<and> 0 \<le> c \<and> c < cols g0 \<longrightarrow>
           elems g r c = green_val (quadrant_offset (rows g0) r) (quadrant_offset (cols g0) c)"
    by auto
  have "green_val (quadrant_offset (rows g0) r) (quadrant_offset (cols g0) c) =
             (if quadrant_offset (rows g0) r = 0 \<and> quadrant_offset (cols g0) c = 0
              then - 14658711977588554 / 10000000000000000
              else ln (sqrt (real_of_int ((quadrant_offset (rows g0) r) ^ 2
                                          + (quadrant_offset (cols g0) c) ^ 2))) / pi)"
    if rc: "0 \<le> r \<and> r < rows g0 \<and> 0 \<le> c \<and> c < cols g0" for r c
  proof (cases "quadrant_offset (rows g0) r = 0 \<and> quadrant_offset (cols g0) c = 0")
    case True
    then show ?thesis by (simp add: green_val_def)
  next
    case False
    have i: "0 \<le> quadrant_offset (rows g0) r" "quadrant_offset (rows g0) r \<le> 46340"
      using quadrant_offset_range [of r "rows g0"] rc assms(4) by simp_all
    have j: "0 \<le> quadrant_offset (cols g0) c" "quadrant_offset (cols g0) c < 2 ^ 31"
      using quadrant_offset_range [of c "cols g0"] rc assms(2) by simp_all
    from False have "quadrant_offset (rows g0) r \<noteq> 0 \<or> quadrant_offset (cols g0) c \<noteq> 0" by simp
    from green_val_exact [OF i j this] False show ?thesis by simp
  qed
  with g show ?thesis by simp
qed

text \<open>
  C8 (the code differs). For every kernel with at least one row and one column the
  filled grid is symmetric under the half turn, \<open>kernel[r][c] = kernel[(h - r) mod h][(w - c) mod w]\<close>
  (\<open>fill_green_fct_symmetric\<close>), and every cell holds \<open>val\<close> of its quadrant offsets
  (\<open>fill_green_fct_cells\<close>). That value is the regularizing constant at the zero offset
  and \<open>log(sqrt(i^2 + j^2)) / pi\<close> elsewhere as long as \<open>h div 2 \<le> 46340\<close>
  (\<open>fill_green_fct_exact\<close>). From the row offset \<open>46341\<close> on, \<open>int i_sq = i * i\<close> no
  longer holds the square: in the kernel of \<open>93312\<close> rows and \<open>2\<close> columns (the kernel of
  a convergence image of \<open>46656\<close> rows and one column) the cell \<open>(46340, 0)\<close> is
  \<open>log(sqrt(46340^2)) / pi\<close>, but the cell \<open>(46341, 0)\<close> is
  \<open>log(sqrt(18446744071562072601)) / pi\<close> and not \<open>log(sqrt(46341^2)) / pi\<close>.
\<close>

theorem green_kernel_narrowing:
  "\<exists>g. fill_green_fct (mat_const 93312 2 0) = Some g
     \<and> elems g 46340 0 = ln (sqrt (real_of_int (46340 ^ 2 + 0 ^ 2))) / pi
     \<and> elems g 46341 0 = ln (sqrt 18446744071562072601) / pi
     \<and> elems g 46341 0 \<noteq> ln (sqrt (real_of_int (46341 ^ 2 + 0 ^ 2))) / pi"
proof -
  have d: "rows (mat_const 93312 2 (0::real)) = 93312" "cols (mat_const 93312 2 (0::real)) = 2"
    by (simp_all add: mat_const_def)
  from fill_green_fct_cells [of "mat_const 93312 2 0"] d obtain g where
    g: "fill_green_fct (mat_const 93312 2 0) = Some g"
      "\<forall>r c. 0 \<le> r \<and> r < 93312 \<and> 0 \<le> c \<and> c < 2 \<longrightarrow>
           elems g r c = green_val (quadrant_offset 93312 r) (quadrant_offset 2 c)"
    by auto
  have "elems g 46340 0 = green_val 46340 0" "elems g 46341 0 = green_val 46341 0"
    using g(2) by (simp_all add: quadrant_offset_def)
  moreover have "green_val 46340 0 = ln (sqrt (real_of_int (46340 ^ 2 + 0 ^ 2))) / pi"
    by (intro green_val_exact) simp_all
  ultimately show ?thesis
    using g(1) green_val_wrapped green_val_wrapped_differs by auto
qed

section \<open>Caustic inversion\<close>

lemma mat_put_effect:
  assumes "in_range m r c"
  shows "\<exists>m'. mat_put m r c v = Some m' \<and> rows m' = rows m \<and> cols m' = cols m
     \<and> (\<forall>r' c'. elems m' r' c' = (if r' = r \<and> c' = c then v else elems m r' c'))"
  using assms by (simp add: mat_put_def)

lemma invert_cc_pixel_effect:
  assumes "pixel_covered l i j"
    and "width = cols (caustic_map l)" and "height = rows (caustic_map l)"
  shows "\<exists>m. invert_cc_pixel width height i j l = Some (l\<lparr>caustic_map := m\<rparr>)
     \<and> rows m = rows (caustic_map l) \<and> cols m = cols (caustic_map l)
     \<and> (\<forall>r c. elems m r c = (if marks l i j r c then 255 else elems (caustic_map l) r c))"
proof -
  have rt: "raytrace_pixel l j i j i 1 =
      Some (real_of_int j - elems (alpha1 l) i j * weight l, real_of_int i - elems (alpha2 l) i j * weight l)"
    using assms(1) by (simp add: pixel_covered_def raytrace_pixel_def mat_at_def)
  have cc: "mat_at (cc_map l) i j = Some (elems (cc_map l) i j)"
    using assms(1) by (simp add: pixel_covered_def mat_at_def)
  define b1 b2 where "b1 = fst (traced_cell l i j)" and "b2 = snd (traced_cell l i j)"
  have b: "static_cast_int (real_of_int j - elems (alpha1 l) i j * weight l + 1 / 2) = b1"
    "static_cast_int (real_of_int i - elems (alpha2 l) i j * weight l + 1 / 2) = b2"
    by (simp_all add: b1_def b2_def traced_cell_def)
  show ?thesis
  proof (cases "0 < elems (cc_map l) i j \<and> 0 \<le> b1 \<and> b1 < width \<and> 0 \<le> b2 \<and> b2 < height")
    case False
    then have "\<And>r c. \<not> marks l i j r c"
      by (auto simp: marks_def Let_def b1_def b2_def assms(2,3))
    moreover have "invert_cc_pixel width height i j l = Some l"
      using False by (auto simp: invert_cc_pixel_def rt cc b Let_def)
    moreover have "l\<lparr>caustic_map := caustic_map l\<rparr> = l" by simp
    ultimately show ?thesis by (metis (full_types))
  next
    case True
    have r0: "0 \<le> relocate_int (b1 - 1) width \<and> relocate_int (b1 - 1) width < width"
      using True relocate_int_range [of width "b1 - 1"] by simp
    have r1: "0 \<le> relocate_int (b2 - 1) height \<and> relocate_int (b2 - 1) height < height"
      using True relocate_int_range [of height "b2 - 1"] by simp
    from mat_put_effect [of "caustic_map l" b2 b1 255] True obtain m1 where
      m1: "mat_put (caustic_map l) b2 b1 255 = Some m1" "rows m1 = height" "cols m1 = width"
        "\<forall>r c. elems m1 r c = (if r = b2 \<and> c = b1 then 255 else elems (caustic_map l) r c)"
      by (auto simp: in_range_def assms(2,3))
    from mat_put_effect [of m1 "relocate_int (b2 - 1) height" b1 255] True r1 m1(2,3) obtain m2 where
      m2: "mat_put m1 (relocate_int (b2 - 1) height) b1 255 = Some m2" "rows m2 = height" "cols m2 = width"
        "\<forall>r c. elems m2 r c = (if r = relocate_int (b2 - 1) height \<and> c = b1 then 255 else elems m1 r c)"
      by (auto simp: in_range_def)
    from mat_put_effect [of m2 b2 "relocate_int (b1 - 1) width" 255] True r0 m2(2,3) obtain m where
      m3: "mat_put m2 b2 (relocate_int (b1 - 1) width) 255 = Some m" "rows m = height" "cols m = width"
        "\<forall>r c. elems m r c = (if r = b2 \<and> c = relocate_int (b1 - 1) width then 255 else elems m2 r c)"
      by (auto simp: in_range_def)
    have "invert_cc_pixel width height i j l = Some (l\<lparr>caustic_map := m\<rparr>)"
      using True by (simp add: invert_cc_pixel_def rt cc b Let_def m1(1) m2(1) m3(1))
    moreover have "\<forall>r c. elems m r c = (if marks l i j r c then 255 else elems (caustic_map l) r c)"
      using True by (auto simp: m3(4) m2(4) m1(4) marks_def Let_def b1_def b2_def assms(2,3))
    moreover have "rows m = rows (caustic_map l)" "cols m = cols (caustic_map l)"
      by (simp_all add: m3 assms(2,3))
    ultimately show ?thesis by blast
  qed
qed


lemma marks_caustic_update:
  assumes "rows m = rows (caustic_map l)" and "cols m = cols (caustic_map l)"
  shows "marks (l\<lparr>caustic_map := m\<rparr>) i j r c = marks l i j r c"
    and "pixel_covered (l\<lparr>caustic_map := m\<rparr>) i j = pixel_covered l i j"
  using assms by (simp_all add: marks_def traced_cell_def pixel_covered_def)

lemma invert_cc_row:
  assumes cov: "\<And>j. 0 \<le> j \<Longrightarrow> j < width \<Longrightarrow> pixel_covered l0 i j"
    and w: "width = cols (caustic_map l0)" and h: "height = rows (caustic_map l0)" and "0 \<le> width"
    and m0: "rows m0 = rows (caustic_map l0)" "cols m0 = cols (caustic_map l0)"
  shows "\<exists>m. for_loop 0 width (\<lambda>j l'. invert_cc_pixel width height i j l') (l0\<lparr>caustic_map := m0\<rparr>)
              = Some (l0\<lparr>caustic_map := m\<rparr>)
     \<and> rows m = rows (caustic_map l0) \<and> cols m = cols (caustic_map l0)
     \<and> (\<forall>r c. elems m r c =
           (if \<exists>j. 0 \<le> j \<and> j < width \<and> marks l0 i j r c then 255 else elems m0 r c))"
proof -
  define P where "P k t \<longleftrightarrow> (\<exists>m. t = l0\<lparr>caustic_map := m\<rparr>
     \<and> rows m = rows (caustic_map l0) \<and> cols m = cols (caustic_map l0)
     \<and> (\<forall>r c. elems m r c =
           (if \<exists>j. 0 \<le> j \<and> j < k \<and> marks l0 i j r c then 255 else elems m0 r c)))"
    for k and t :: lensT
  have "\<exists>t. for_loop 0 width (\<lambda>j l'. invert_cc_pixel width height i j l') (l0\<lparr>caustic_map := m0\<rparr>) = Some t
          \<and> P width t"
  proof (rule for_loop_invariant)
    show "0 \<le> width" by fact
    show "P 0 (l0\<lparr>caustic_map := m0\<rparr>)"
      unfolding P_def using m0 by (intro exI [of _ m0]) auto
    fix k t assume k: "0 \<le> k" "k < width" and p: "P k t"
    from p obtain m where m: "t = l0\<lparr>caustic_map := m\<rparr>"
      "rows m = rows (caustic_map l0)" "cols m = cols (caustic_map l0)"
      "\<forall>r c. elems m r c = (if \<exists>j. 0 \<le> j \<and> j < k \<and> marks l0 i j r c then 255 else elems m0 r c)"
      unfolding P_def by blast
    have c: "pixel_covered t i k"
      unfolding m(1) marks_caustic_update(2) [OF m(2,3)] using cov k by simp
    from invert_cc_pixel_effect [OF c, of width height] w h m(1,2,3)
    obtain m' where m': "invert_cc_pixel width height i k t = Some (t\<lparr>caustic_map := m'\<rparr>)"
      "rows m' = rows (caustic_map l0)" "cols m' = cols (caustic_map l0)"
      "\<forall>r c. elems m' r c = (if marks t i k r c then 255 else elems m r c)"
      by auto
    have e: "\<forall>r c. elems m' r c = (if marks l0 i k r c then 255 else elems m r c)"
      using m'(4) unfolding m(1) marks_caustic_update(1) [OF m(2,3)] .
    have s: "\<And>r c. (\<exists>j. 0 \<le> j \<and> j < k + 1 \<and> marks l0 i j r c)
        \<longleftrightarrow> (\<exists>j. 0 \<le> j \<and> j < k \<and> marks l0 i j r c) \<or> marks l0 i k r c"
      using k(1) by (auto simp: less_le)
    have "P (k + 1) (t\<lparr>caustic_map := m'\<rparr>)"
      unfolding P_def s
      by (intro exI [of _ m']) (auto simp: m(1) m'(2,3) e m(4))
    with m'(1) show "\<exists>t'. invert_cc_pixel width height i k t = Some t' \<and> P (k + 1) t'" by blast
  qed
  then show ?thesis unfolding P_def by blast
qed

lemma invert_cc_map_result:
  assumes cov: "\<And>i j. range_start \<le> i \<Longrightarrow> i < range_end \<Longrightarrow> 0 \<le> j \<Longrightarrow> j < cols (caustic_map l0)
      \<Longrightarrow> pixel_covered l0 i j"
    and "range_start \<le> range_end" and "0 \<le> cols (caustic_map l0)"
  shows "\<exists>m. invert_cc_map l0 range_start range_end = Some (l0\<lparr>caustic_map := m\<rparr>)
     \<and> rows m = rows (caustic_map l0) \<and> cols m = cols (caustic_map l0)
     \<and> (\<forall>r c. elems m r c =
           (if \<exists>i j. range_start \<le> i \<and> i < range_end \<and> 0 \<le> j \<and> j < cols (caustic_map l0)
                      \<and> marks l0 i j r c
            then 255 else elems (caustic_map l0) r c))"
proof -
  define width height where "width = cols (caustic_map l0)" and "height = rows (caustic_map l0)"
  define Q where "Q k t \<longleftrightarrow> (\<exists>m. t = l0\<lparr>caustic_map := m\<rparr>
     \<and> rows m = rows (caustic_map l0) \<and> cols m = cols (caustic_map l0)
     \<and> (\<forall>r c. elems m r c =
           (if \<exists>i j. range_start \<le> i \<and> i < k \<and> 0 \<le> j \<and> j < width \<and> marks l0 i j r c
            then 255 else elems (caustic_map l0) r c)))"
    for k and t :: lensT
  have "\<exists>t. for_loop range_start range_end
           (\<lambda>i l. for_loop 0 width (\<lambda>j l'. invert_cc_pixel width height i j l') l) l0 = Some t
          \<and> Q range_end t"
  proof (rule for_loop_invariant)
    show "range_start \<le> range_end" by fact
    show "Q range_start l0"
      unfolding Q_def by (intro exI [of _ "caustic_map l0"]) auto
    fix k t assume k: "range_start \<le> k" "k < range_end" and q: "Q k t"
    from q obtain m where m: "t = l0\<lparr>caustic_map := m\<rparr>"
      "rows m = rows (caustic_map l0)" "cols m = cols (caustic_map l0)"
      "\<forall>r c. elems m r c =
           (if \<exists>i j. range_start \<le> i \<and> i < k \<and> 0 \<le> j \<and> j < width \<and> marks l0 i j r c
            then 255 else elems (caustic_map l0) r c)"
      unfolding Q_def by blast
    have "\<exists>m'. for_loop 0 width (\<lambda>j l'. invert_cc_pixel width height k j l') (l0\<lparr>caustic_map := m\<rparr>)
              = Some (l0\<lparr>caustic_map := m'\<rparr>)
       \<and> rows m' = rows (caustic_map l0) \<and> cols m' = cols (caustic_map l0)
       \<and> (\<forall>r c. elems m' r c =
             (if \<exists>j. 0 \<le> j \<and> j < width \<and> marks l0 k j r c then 255 else elems m r c))"
    proof (rule invert_cc_row)
      show "\<And>j. 0 \<le> j \<Longrightarrow> j < width \<Longrightarrow> pixel_covered l0 k j"
        using cov k by (simp add: width_def)
      show "width = cols (caustic_map l0)" "height = rows (caustic_map l0)"
        by (simp_all add: width_def height_def)
      show "0 \<le> width" using assms(3) by (simp add: width_def)
      show "rows m = rows (caustic_map l0)" "cols m = cols (caustic_map l0)" by fact+
    qed
    then obtain m' where m': "for_loop 0 width (\<lambda>j l'. invert_cc_pixel width height k j l') t
              = Some (l0\<lparr>caustic_map := m'\<rparr>)"
      "rows m' = rows (caustic_map l0)" "cols m' = cols (caustic_map l0)"
      "\<forall>r c. elems m' r c =
             (if \<exists>j. 0 \<le> j \<and> j < width \<and> marks l0 k j r c then 255 else elems m r c)"
      unfolding m(1) by blast
    have s: "\<And>r c. (\<exists>i j. range_start \<le> i \<and> i < k + 1 \<and> 0 \<le> j \<and> j < width \<and> marks l0 i j r c)
        \<longleftrightarrow> (\<exists>i j. range_start \<le> i \<and> i < k \<and> 0 \<le> j \<and> j < width \<and> marks l0 i j r c)
            \<or> (\<exists>j. 0 \<le> j \<and> j < width \<and> marks l0 k j r c)"
      using k(1) by (auto simp: less_le)
    have "Q (k + 1) (l0\<lparr>caustic_map := m'\<rparr>)"
      unfolding Q_def s
      by (intro exI [of _ m']) (auto simp: m'(2,3,4) m(4))
    with m'(1) show "\<exists>t'. for_loop 0 width (\<lambda>j l'. invert_cc_pixel width height k j l') t = Some t'
        \<and> Q (k + 1) t'" by blast
  qed
  then show ?thesis
    unfolding Q_def invert_cc_map_def Let_def width_def height_def by blast
qed


lemma static_cast_int_half:
  "static_cast_int (real_of_int k + 1 / 2) = (if 0 \<le> k then k else k + 1)"
  unfolding static_cast_int_def by (auto; linarith)

lemma static_cast_int_round:
  assumes "- 1 / 2 \<le> x"
  shows "static_cast_int (x + 1 / 2) = round x"
  using assms by (simp add: static_cast_int_def round_def)

lemma traced_cell_raytrace:
  assumes "pixel_covered l i j"
  shows "\<exists>beta1 beta2. raytrace_pixel l j i j i 1 = Some (beta1, beta2)
     \<and> beta1 = real_of_int j - weight l * elems (alpha1 l) i j
     \<and> beta2 = real_of_int i - weight l * elems (alpha2 l) i j
     \<and> traced_cell l i j = (static_cast_int (beta1 + 1 / 2), static_cast_int (beta2 + 1 / 2))"
  using assms
  by (simp add: pixel_covered_def raytrace_pixel_def mat_at_def traced_cell_def mult.commute)

lemma marks_inside:
  assumes "1 \<le> fst (traced_cell l i j)" and "1 \<le> snd (traced_cell l i j)"
  shows "marks l i j r c \<longleftrightarrow>
     0 < elems (cc_map l) i j
     \<and> fst (traced_cell l i j) < cols (caustic_map l) \<and> snd (traced_cell l i j) < rows (caustic_map l)
     \<and> ((r = snd (traced_cell l i j) \<and> c = fst (traced_cell l i j))
         \<or> (r = snd (traced_cell l i j) - 1 \<and> c = fst (traced_cell l i j))
         \<or> (r = snd (traced_cell l i j) \<and> c = fst (traced_cell l i j) - 1))"
  using assms by (auto simp: marks_def Let_def relocate_int_def)

lemma marks_dropped:
  assumes "elems (cc_map l) i j = 0
      \<or> fst (traced_cell l i j) < 0 \<or> cols (caustic_map l) \<le> fst (traced_cell l i j)
      \<or> snd (traced_cell l i j) < 0 \<or> rows (caustic_map l) \<le> snd (traced_cell l i j)"
  shows "\<not> marks l i j r c"
  using assms by (auto simp: marks_def Let_def)

lemma static_cast_int_slip:
  assumes "- 3 / 2 < x" and "x < - 1 / 2"
  shows "static_cast_int (x + 1 / 2) = 0 \<and> round x = - 1"
proof -
  have "\<lceil>x + 1 / 2\<rceil> = 0" using assms by (intro ceiling_unique) simp_all
  moreover have "\<lfloor>x + 1 / 2\<rfloor> = - 1" using assms by (intro floor_unique) simp_all
  ultimately show ?thesis using assms by (simp add: static_cast_int_def round_def)
qed

lemma marks_lens_edge:
  "marks lens_edge 1 1 r c \<longleftrightarrow> (r = 1 \<and> c = 0) \<or> (r = 0 \<and> c = 0)"
proof -
  have t: "traced_cell lens_edge 1 1 = (0, 1)"
    by (simp add: traced_cell_def lens_edge_def mat_const_def static_cast_int_def)
  show ?thesis
    unfolding marks_def Let_def t
    by (auto simp: lens_edge_def mat_const_def relocate_int_def)
qed

text \<open>
  The footprint is clamped into the map: for a critical-curve pixel traced to the cell
  \<open>(b1, b2) = (0, 1)\<close>, \<open>relocate(b1 - 1, width)\<close> is \<open>0\<close> again, so the pixel marks the two
  cells \<open>(1, 0)\<close> and \<open>(0, 0)\<close>.
\<close>

lemma footprint_on_first_column:
  "\<exists>m. invert_cc_pixel 2 2 1 1 lens_edge = Some (lens_edge\<lparr>caustic_map := m\<rparr>)
     \<and> {(r, c). elems m r c = 255} = {(1, 0), (0, 0)}
     \<and> card {(r, c). elems m r c = 255} = 2"
proof -
  have "pixel_covered lens_edge 1 1"
    by (simp add: pixel_covered_def in_range_def lens_edge_def mat_const_def)
  moreover have "2 = cols (caustic_map lens_edge)" "2 = rows (caustic_map lens_edge)"
    by (simp_all add: lens_edge_def mat_const_def)
  ultimately have "\<exists>m. invert_cc_pixel 2 2 1 1 lens_edge = Some (lens_edge\<lparr>caustic_map := m\<rparr>)
     \<and> rows m = rows (caustic_map lens_edge) \<and> cols m = cols (caustic_map lens_edge)
     \<and> (\<forall>r c. elems m r c = (if marks lens_edge 1 1 r c then 255 else elems (caustic_map lens_edge) r c))"
    by (rule invert_cc_pixel_effect)
  then obtain m where m: "invert_cc_pixel 2 2 1 1 lens_edge = Some (lens_edge\<lparr>caustic_map := m\<rparr>)"
    "\<forall>r c. elems m r c = (if marks lens_edge 1 1 r c then 255 else elems (caustic_map lens_edge) r c)"
    by blast
  have z: "\<And>r c. elems (caustic_map lens_edge) r c = 0"
    by (simp add: lens_edge_def mat_const_def)
  have s: "{(r, c). elems m r c = 255} = {(1, 0), (0, 0)}"
    by (auto simp: m(2) z marks_lens_edge)
  have "card {(1::int, 0::int), (0, 0)} = 2" by simp
  then have "card {(r, c). elems m r c = 255} = 2" unfolding s .
  with s m(1) show ?thesis by blast
qed

lemma lens_slip_fields:
  "elems (alpha1 lens_slip) r c = 17 / 10" "elems (alpha2 lens_slip) r c = 0" "weight lens_slip = 1"
  "elems (cc_map lens_slip) r c = (if r = 1 \<and> c = 1 then 255 else 0)"
  "elems (caustic_map lens_slip) r c = 0"
  "cols (caustic_map lens_slip) = 2" "rows (caustic_map lens_slip) = 2"
  by (simp_all add: lens_slip_def mat_const_def)

lemma lens_slip_covered:
  "0 \<le> i \<Longrightarrow> i < 2 \<Longrightarrow> 0 \<le> j \<Longrightarrow> j < 2 \<Longrightarrow> pixel_covered lens_slip i j"
  by (simp add: pixel_covered_def in_range_def lens_slip_def mat_const_def)

lemma traced_cell_lens_slip: "traced_cell lens_slip 1 1 = (0, 1)"
proof -
  have "static_cast_int (- 7 / 10 + 1 / 2) = 0"
    using static_cast_int_slip [of "- 7 / 10"] by simp
  moreover have "static_cast_int (1 + 1 / 2) = 1"
    using static_cast_int_half [of 1] by simp
  ultimately show ?thesis
    by (simp add: traced_cell_def lens_slip_fields)
qed

lemma marks_lens_slip:
  "marks lens_slip i j r c \<longleftrightarrow> i = 1 \<and> j = 1 \<and> ((r = 1 \<and> c = 0) \<or> (r = 0 \<and> c = 0))"
proof (cases "i = 1 \<and> j = 1")
  case True
  have "marks lens_slip 1 1 r c \<longleftrightarrow> (r = 1 \<and> c = 0) \<or> (r = 0 \<and> c = 0)"
    unfolding marks_def Let_def traced_cell_lens_slip
    by (auto simp: lens_slip_fields relocate_int_def)
  with True show ?thesis by simp
next
  case False
  then have "elems (cc_map lens_slip) i j = 0" by (simp add: lens_slip_fields)
  then have "\<not> marks lens_slip i j r c" by (intro marks_dropped) simp
  with False show ?thesis by blast
qed

text \<open>
  C5 (the code differs). The pass traces every pixel with scale factor \<open>1\<close> and without
  fall-off, marks the traced cell with its clamped neighbours and drops a cell outside
  the map without failing (\<open>invert_cc_map_result\<close>), but it does not round to the
  nearest integer: \<open>static_cast<int>(x + 0.5)\<close> truncates towards zero, which is the
  nearest integer for \<open>x \<ge> -0.5\<close> only (\<open>static_cast_int_round\<close>) and is \<open>0\<close>, not \<open>-1\<close>,
  for \<open>-1.5 < x < -0.5\<close> (\<open>static_cast_int_slip\<close>). A ray that leaves the map to the left
  or to the top by less than a pixel and a half is therefore not dropped but marked on
  column or row \<open>0\<close>. In \<open>lens_slip\<close> the only critical-curve pixel, \<open>(1, 1)\<close>, is traced
  to \<open>(-0.7, 1)\<close>. Rounded to the nearest integer that is the cell \<open>(-1, 1)\<close>, outside
  the map, and nothing would be written; the pass takes the cell \<open>(0, 1)\<close> and writes
  \<open>255\<close> at \<open>(1, 0)\<close> and \<open>(0, 0)\<close> of a caustic map that was \<open>0\<close> everywhere.
\<close>

theorem caustic_rounding_slip:
  "\<exists>beta1 beta2 m.
     raytrace_pixel lens_slip 1 1 1 1 1 = Some (beta1, beta2)
     \<and> beta1 = - 7 / 10 \<and> beta2 = 1
     \<and> nearest_cell lens_slip 1 1 = (round beta1, round beta2)
     \<and> nearest_cell lens_slip 1 1 = (- 1, 1)
     \<and> traced_cell lens_slip 1 1 = (static_cast_int (beta1 + 1 / 2), static_cast_int (beta2 + 1 / 2))
     \<and> traced_cell lens_slip 1 1 = (0, 1)
     \<and> 0 < elems (cc_map lens_slip) 1 1
     \<and> (\<forall>r c. elems (caustic_map lens_slip) r c = 0)
     \<and> invert_cc_map lens_slip 0 2 = Some (lens_slip\<lparr>caustic_map := m\<rparr>)
     \<and> {(r, c). elems m r c = 255} = {(1, 0), (0, 0)}"
proof -
  have cov: "pixel_covered lens_slip 1 1" by (simp add: lens_slip_covered)
  from traced_cell_raytrace [OF cov] obtain beta1 beta2 where
    rt: "raytrace_pixel lens_slip 1 1 1 1 1 = Some (beta1, beta2)"
    and b: "beta1 = real_of_int 1 - weight lens_slip * elems (alpha1 lens_slip) 1 1"
      "beta2 = real_of_int 1 - weight lens_slip * elems (alpha2 lens_slip) 1 1"
    and tc: "traced_cell lens_slip 1 1 = (static_cast_int (beta1 + 1 / 2), static_cast_int (beta2 + 1 / 2))"
    by blast
  have v: "beta1 = - 7 / 10" "beta2 = 1"
    using b by (simp_all add: lens_slip_fields)
  have r: "round (- 7 / 10 :: real) = - 1" "round (1 :: real) = 1"
    using static_cast_int_slip [of "- 7 / 10"] by simp_all
  have nc: "nearest_cell lens_slip 1 1 = (round beta1, round beta2)"
    unfolding v by (simp add: nearest_cell_def lens_slip_fields)
  have nv: "nearest_cell lens_slip 1 1 = (- 1, 1)"
    unfolding nc v r by simp
  have cc: "0 < elems (cc_map lens_slip) 1 1" by (simp add: lens_slip_fields)
  have z: "\<forall>r c. elems (caustic_map lens_slip) r c = 0" by (simp add: lens_slip_fields)
  have "\<exists>m. invert_cc_map lens_slip 0 2 = Some (lens_slip\<lparr>caustic_map := m\<rparr>)
     \<and> rows m = rows (caustic_map lens_slip) \<and> cols m = cols (caustic_map lens_slip)
     \<and> (\<forall>r c. elems m r c =
           (if \<exists>i j. 0 \<le> i \<and> i < 2 \<and> 0 \<le> j \<and> j < cols (caustic_map lens_slip)
                      \<and> marks lens_slip i j r c
            then 255 else elems (caustic_map lens_slip) r c))"
    by (rule invert_cc_map_result) (simp_all add: lens_slip_covered lens_slip_fields)
  then obtain m where m: "invert_cc_map lens_slip 0 2 = Some (lens_slip\<lparr>caustic_map := m\<rparr>)"
    and e: "\<forall>r c. elems m r c =
           (if \<exists>i j. 0 \<le> i \<and> i < 2 \<and> 0 \<le> j \<and> j < cols (caustic_map lens_slip)
                      \<and> marks lens_slip i j r c
            then 255 else elems (caustic_map lens_slip) r c)"
    by blast
  have k: "\<And>r c. (\<exists>i j. 0 \<le> i \<and> i < 2 \<and> 0 \<le> j \<and> j < 2 \<and> marks lens_slip i j r c)
      \<longleftrightarrow> (r = 1 \<and> c = 0) \<or> (r = 0 \<and> c = 0)"
    by (auto simp: marks_lens_slip)
  have e': "\<forall>r c. elems m r c = (if (r = 1 \<and> c = 0) \<or> (r = 0 \<and> c = 0) then 255 else 0)"
    using e by (simp only: lens_slip_fields(5,6) k) simp
  have s: "{(r, c). elems m r c = 255} = {(1, 0), (0, 0)}"
    by (auto simp: e')
  show ?thesis
    by (insert rt v nc nv tc traced_cell_lens_slip cc z m s,
        rule exI [of _ beta1], rule exI [of _ beta2], rule exI [of _ m], simp)
qed

section \<open>The renderer\<close>

lemma unat_composite_channel: "unat (composite_channel v n) = min 255 (unat v + n)"
proof (cases "unat v + n > 255")
  case True
  then show ?thesis by (simp add: composite_channel_def Let_def)
next
  case False
  then have "unat v + n < 2 ^ LENGTH(8)" by simp
  then have "unat (word_of_nat (unat v + n) :: uchar) = unat v + n"
    by (rule of_nat_inverse [OF refl])
  with False show ?thesis by (simp add: composite_channel_def Let_def)
qed

lemma composite_pixel_effect:
  assumes "in_range lensed i j" and "in_range final i j"
  shows "\<exists>f. composite_pixel lensed final i j n = Some f \<and> rows f = rows final \<and> cols f = cols final
     \<and> saturated_sum (elems lensed i j) n (elems f i j)
     \<and> (\<forall>r c. (r, c) \<noteq> (i, j) \<longrightarrow> elems f r c = elems final r c)"
  using assms
  by (auto simp: composite_pixel_def mat_at_def mat_put_def saturated_sum_def unat_composite_channel)


lemma footprint_in_range:
  assumes "lens_contains lens j i"
    and "lens_end_points lens = (fst (lens_origin lens) + lens_w lens, snd (lens_origin lens) + lens_h lens)"
    and "lens_grid lens m"
  shows "in_range m (i - snd (lens_origin lens)) (j - fst (lens_origin lens))"
  using assms by (auto simp: lens_contains_def lens_grid_def in_range_def)

lemma mat_put_frame:
  assumes "in_range m r c"
  shows "\<exists>m'. mat_put m r c v = Some m' \<and> rows m' = rows m \<and> cols m' = cols m
     \<and> elems m' r c = v \<and> (\<forall>r' c'. (r', c') \<noteq> (r, c) \<longrightarrow> elems m' r' c' = elems m r' c')"
  using assms by (auto simp: mat_put_def)

lemma render_overlays_outside:
  assumes "\<not> (show_overlays mode \<and> lens_contains lens j i)"
  shows "render_overlays rc lens mode i j final = Some (Proceed final 0 False)"
proof -
  from assms have c: "(show_overlays mode \<and> lens_contains lens j i) = False" by simp
  show ?thesis unfolding render_overlays_def Let_def c by simp
qed

lemma render_overlays_footprint:
  assumes con: "lens_contains lens j i" and ov: "show_overlays mode"
    and geo: "lens_end_points lens = (fst (lens_origin lens) + lens_w lens, snd (lens_origin lens) + lens_h lens)"
    and g: "lens_grid lens (cc_map lens)" "lens_grid lens (caustic_map lens)" "lens_grid lens (kappa8u lens)"
    and fin: "in_range final i j"
  defines "rel_i \<equiv> i - snd (lens_origin lens)" and "rel_j \<equiv> j - fst (lens_origin lens)"
  defines "cc \<equiv> elems (cc_map lens) rel_i rel_j" and "ca \<equiv> elems (caustic_map lens) rel_i rel_j"
  shows "\<exists>f. rows f = rows final \<and> cols f = cols final
     \<and> (\<forall>r c. (r, c) \<noteq> (i, j) \<longrightarrow> elems f r c = elems final r c)
     \<and> (if show_cc mode \<and> cc = 255 \<and> \<not> rc
         then render_overlays rc lens mode i j final = Some (Continue f) \<and> elems f i j = (255, 255, 255)
         else if show_cc mode \<and> ca > 0
         then elems f i j = (0, 0, 255)
              \<and> render_overlays rc lens mode i j final =
                   Some (if rc then Proceed f (overlay_total lens mode i j) True else Continue f)
         else f = final
              \<and> render_overlays rc lens mode i j final = Some (Proceed final (overlay_total lens mode i j) False))"
proof -
  have r: "mat_at (cc_map lens) rel_i rel_j = Some cc" "mat_at (caustic_map lens) rel_i rel_j = Some ca"
    "mat_at (kappa8u lens) rel_i rel_j = Some (elems (kappa8u lens) rel_i rel_j)"
    using footprint_in_range [OF con geo g(1)] footprint_in_range [OF con geo g(2)]
      footprint_in_range [OF con geo g(3)]
    by (simp_all add: mat_at_def rel_i_def rel_j_def cc_def ca_def)
  have z: "0 < unat cc \<longleftrightarrow> cc \<noteq> 0" "unat cc = 255 \<longleftrightarrow> cc = 255"
    using unat_gt_0 [of cc] word_unat_eq_iff [of cc 255] by simp_all
  from mat_put_frame [OF fin, of "(255, 255, 255)"] obtain fw where
    fw: "mat_put final i j (255, 255, 255) = Some fw" "rows fw = rows final" "cols fw = cols final"
      "elems fw i j = (255, 255, 255)" "\<forall>r c. (r, c) \<noteq> (i, j) \<longrightarrow> elems fw r c = elems final r c"
    by blast
  from mat_put_frame [OF fin, of "(0, 0, 255)"] obtain fr where
    fr: "mat_put final i j (0, 0, 255) = Some fr" "rows fr = rows final" "cols fr = cols final"
      "elems fr i j = (0, 0, 255)" "\<forall>r c. (r, c) \<noteq> (i, j) \<longrightarrow> elems fr r c = elems final r c"
    by blast
  have ot: "overlay_total lens mode i j =
      (if show_cc mode then unat cc else 0)
      + (if show_lens mode then unat (elems (kappa8u lens) rel_i rel_j) else 0)"
    by (simp add: overlay_total_def Let_def rel_i_def rel_j_def cc_def)
  consider (white) "show_cc mode \<and> cc = 255 \<and> \<not> rc"
    | (red) "\<not> (show_cc mode \<and> cc = 255 \<and> \<not> rc)" "show_cc mode \<and> ca > 0"
    | (sum) "\<not> (show_cc mode \<and> cc = 255 \<and> \<not> rc)" "\<not> (show_cc mode \<and> ca > 0)"
    by blast
  then show ?thesis
  proof cases
    case white
    then have "render_overlays rc lens mode i j final = Some (Continue fw)"
      using con ov
      by (simp add: render_overlays_def Let_def rel_i_def [symmetric] rel_j_def [symmetric] r fw(1))
    with white fw show ?thesis by (intro exI [of _ fw]) auto
  next
    case red
    then have "render_overlays rc lens mode i j final =
        Some (if rc then Proceed fr (overlay_total lens mode i j) True else Continue fr)"
      using con ov
      by (auto simp: render_overlays_def Let_def rel_i_def [symmetric] rel_j_def [symmetric] r fr(1) ot z)
    with red fr show ?thesis by (intro exI [of _ fr]) auto
  next
    case sum
    then have "render_overlays rc lens mode i j final =
        Some (Proceed final (overlay_total lens mode i j) False)"
      using con ov
      by (auto simp: render_overlays_def Let_def rel_i_def [symmetric] rel_j_def [symmetric] r ot z)
    with sum show ?thesis by (intro exI [of _ final]) auto
  qed
qed

lemma falloff_safe_range:
  assumes "1 \<le> len"
  shows "0 \<le> snd (relocate_and_compute_exp_falloff p len half (real_of_int len - 1))"
    and "snd (relocate_and_compute_exp_falloff p len half (real_of_int len - 1)) \<le> len - 1"
proof -
  have "static_cast_int (real_of_int len - 1) = len - 1"
    using static_cast_int_of_int [of "len - 1"] by simp
  with assms show "0 \<le> snd (relocate_and_compute_exp_falloff p len half (real_of_int len - 1))"
    and "snd (relocate_and_compute_exp_falloff p len half (real_of_int len - 1)) \<le> len - 1"
    by (simp_all add: relocate_and_compute_exp_falloff_def)
qed

lemma get_pixel_total:
  assumes "source_wf s"
  shows "\<exists>px. get_linear_interpolated_pixel s beta1 beta2 = Some px"
proof (cases "source_contains s beta1 beta2")
  case True
  then show ?thesis using get_pixel_inside [OF True assms] by blast
next
  case False
  then show ?thesis using get_pixel_outside [OF False] by blast
qed

lemma raytrace_source_effect:
  assumes "1 \<le> lens_w lens" and "lens_grid lens (alpha1 lens)" and "lens_grid lens (alpha2 lens)"
    and "source_wf src" and "in_range lensed i j" and "0 \<le> safe_i" and "safe_i \<le> lens_h lens - 1"
  shows "\<exists>l. raytrace_source lens src i safe_i fi j lensed = Some l
     \<and> rows l = rows lensed \<and> cols l = cols lensed
     \<and> (\<forall>r c. (r, c) \<noteq> (i, j) \<longrightarrow> elems l r c = elems lensed r c)"
proof -
  define fs where "fs = relocate_and_compute_exp_falloff (j - fst (lens_origin lens)) (lens_w lens)
      (real_of_int (lens_w lens) * (1 / 2)) (real_of_int (lens_w lens) - 1)"
  have sj: "0 \<le> snd fs" "snd fs \<le> lens_w lens - 1"
    unfolding fs_def using falloff_safe_range [OF assms(1)] by simp_all
  have "in_range (alpha1 lens) safe_i (snd fs)" "in_range (alpha2 lens) safe_i (snd fs)"
    using sj assms(2,3,6,7) by (simp_all add: in_range_def lens_grid_def)
  from raytrace_pixel_in_range [OF this, of j i "fi * fst fs"]
  obtain beta1 beta2 where b: "raytrace_pixel lens j i (snd fs) safe_i (fi * fst fs) = Some (beta1, beta2)"
    by blast
  from get_pixel_total [OF assms(4)] obtain px where
    px: "get_linear_interpolated_pixel src beta1 beta2 = Some px" by blast
  from mat_put_frame [OF assms(5), of px] obtain l where
    l: "mat_put lensed i j px = Some l" "rows l = rows lensed" "cols l = cols lensed"
      "\<forall>r c. (r, c) \<noteq> (i, j) \<longrightarrow> elems l r c = elems lensed r c"
    by blast
  have "raytrace_source lens src i safe_i fi j lensed = Some l"
    unfolding raytrace_source_def Let_def fs_def [symmetric]
    by (simp add: case_prod_beta b px l(1))
  with l show ?thesis by blast
qed

lemma footprint_pixel_cases:
  "footprint_pixel rc lens mode i j lp fp =
     (if elems (cc_map lens) (i - snd (lens_origin lens)) (j - fst (lens_origin lens)) = 255 \<and> \<not> rc
      then fp = (255, 255, 255)
      else if elems (caustic_map lens) (i - snd (lens_origin lens)) (j - fst (lens_origin lens)) > 0
      then fp = (0, 0, 255)
      else saturated_sum lp (overlay_total lens mode i j) fp)"
  by (simp add: footprint_pixel_def Let_def)

lemma screen_wf_fields:
  assumes "screen_wf s"
  shows "1 \<le> lens_w (scr_lens s)" and "1 \<le> lens_h (scr_lens s)"
    and "lens_end_points (scr_lens s) =
           (fst (lens_origin (scr_lens s)) + lens_w (scr_lens s),
            snd (lens_origin (scr_lens s)) + lens_h (scr_lens s))"
    and "lens_grid (scr_lens s) (alpha1 (scr_lens s))" and "lens_grid (scr_lens s) (alpha2 (scr_lens s))"
    and "lens_grid (scr_lens s) (cc_map (scr_lens s))" and "lens_grid (scr_lens s) (caustic_map (scr_lens s))"
    and "lens_grid (scr_lens s) (kappa8u (scr_lens s))"
    and "source_wf (scr_src s)" and "0 \<le> max_w s"
    and "cols (lensedRGB s) = max_w s" and "cols (finalRGB s) = max_w s"
    and "rows (lensedRGB s) = rows (finalRGB s)"
  using assms by (simp_all add: screen_wf_def Let_def)

lemma screen_wf_buffers:
  assumes "screen_wf s" and "rows l = rows (lensedRGB s)" and "cols l = cols (lensedRGB s)"
    and "rows f = rows (finalRGB s)" and "cols f = cols (finalRGB s)"
  shows "screen_wf (s\<lparr>lensedRGB := l, finalRGB := f\<rparr>)"
  using assms by (simp add: screen_wf_def Let_def)

lemma render_pixel_assemble:
  assumes "render_pixel rc i safe_i fi j s = Some (s\<lparr>lensedRGB := l, finalRGB := f\<rparr>)"
    and "rows l = rows (lensedRGB s)" and "cols l = cols (lensedRGB s)"
    and "rows f = rows (finalRGB s)" and "cols f = cols (finalRGB s)"
    and "\<forall>r c. (r, c) \<noteq> (i, j) \<longrightarrow> elems l r c = elems (lensedRGB s) r c"
    and "\<forall>r c. (r, c) \<noteq> (i, j) \<longrightarrow> elems f r c = elems (finalRGB s) r c"
    and "\<not> rc \<longrightarrow> l = lensedRGB s"
    and "lens_contains (scr_lens s) j i \<and> show_cc (overlay_mode s) \<longrightarrow>
          footprint_pixel rc (scr_lens s) (overlay_mode s) i j (elems l i j) (elems f i j)"
  shows "\<exists>l f. render_pixel rc i safe_i fi j s = Some (s\<lparr>lensedRGB := l, finalRGB := f\<rparr>)
     \<and> rows l = rows (lensedRGB s) \<and> cols l = cols (lensedRGB s)
     \<and> rows f = rows (finalRGB s) \<and> cols f = cols (finalRGB s)
     \<and> (\<forall>r c. (r, c) \<noteq> (i, j) \<longrightarrow> elems l r c = elems (lensedRGB s) r c)
     \<and> (\<forall>r c. (r, c) \<noteq> (i, j) \<longrightarrow> elems f r c = elems (finalRGB s) r c)
     \<and> (\<not> rc \<longrightarrow> l = lensedRGB s)
     \<and> (lens_contains (scr_lens s) j i \<and> show_cc (overlay_mode s) \<longrightarrow>
          footprint_pixel rc (scr_lens s) (overlay_mode s) i j (elems l i j) (elems f i j))"
  using assms by (intro exI [of _ l] exI [of _ f] conjI)

text \<open>
  The effect of the pixel body on a well-formed screen: it changes the two buffers at
  \<open>(i, j)\<close> only, and leaves there what \<open>footprint_pixel\<close> says.
\<close>

lemma render_pixel_effect:
  assumes wf: "screen_wf s" and fin: "in_range (finalRGB s) i j"
    and si: "0 \<le> safe_i" "safe_i \<le> lens_h (scr_lens s) - 1"
  shows "\<exists>l f. render_pixel rc i safe_i fi j s = Some (s\<lparr>lensedRGB := l, finalRGB := f\<rparr>)
     \<and> rows l = rows (lensedRGB s) \<and> cols l = cols (lensedRGB s)
     \<and> rows f = rows (finalRGB s) \<and> cols f = cols (finalRGB s)
     \<and> (\<forall>r c. (r, c) \<noteq> (i, j) \<longrightarrow> elems l r c = elems (lensedRGB s) r c)
     \<and> (\<forall>r c. (r, c) \<noteq> (i, j) \<longrightarrow> elems f r c = elems (finalRGB s) r c)
     \<and> (\<not> rc \<longrightarrow> l = lensedRGB s)
     \<and> (lens_contains (scr_lens s) j i \<and> show_cc (overlay_mode s) \<longrightarrow>
          footprint_pixel rc (scr_lens s) (overlay_mode s) i j (elems l i j) (elems f i j))"
proof -
  let ?lens = "scr_lens s"
  let ?mode = "overlay_mode s"
  note w = screen_wf_fields [OF wf]
  have lin: "in_range (lensedRGB s) i j"
    using fin w(11,12,13) by (simp add: in_range_def)
  have "\<exists>l. (if rc then raytrace_source ?lens (scr_src s) i safe_i fi j (lensedRGB s)
               else Some (lensedRGB s)) = Some l
     \<and> rows l = rows (lensedRGB s) \<and> cols l = cols (lensedRGB s)
     \<and> (\<forall>r c. (r, c) \<noteq> (i, j) \<longrightarrow> elems l r c = elems (lensedRGB s) r c)
     \<and> (\<not> rc \<longrightarrow> l = lensedRGB s)"
  proof (cases rc)
    case True
    from raytrace_source_effect [OF w(1,4,5,9) lin si, of fi] True
    show ?thesis by simp
  next
    case False
    then show ?thesis by simp
  qed
  then obtain l where l: "(if rc then raytrace_source ?lens (scr_src s) i safe_i fi j (lensedRGB s)
               else Some (lensedRGB s)) = Some l"
    "rows l = rows (lensedRGB s)" "cols l = cols (lensedRGB s)"
    "\<forall>r c. (r, c) \<noteq> (i, j) \<longrightarrow> elems l r c = elems (lensedRGB s) r c"
    "\<not> rc \<longrightarrow> l = lensedRGB s"
    by blast
  have lin': "in_range l i j"
    using lin l(2,3) by (simp add: in_range_def)
  have same: "\<forall>r c. (r, c) \<noteq> (i, j) \<longrightarrow> elems (lensedRGB s) r c = elems (lensedRGB s) r c"
    by simp
  show ?thesis
  proof (cases "show_overlays ?mode \<and> lens_contains ?lens j i")
    case False
    note ro = render_overlays_outside [OF False, of rc "finalRGB s"]
    from composite_pixel_effect [OF lin' fin, of 0] obtain f where
      f: "composite_pixel l (finalRGB s) i j 0 = Some f" "rows f = rows (finalRGB s)"
        "cols f = cols (finalRGB s)"
        "\<forall>r c. (r, c) \<noteq> (i, j) \<longrightarrow> elems f r c = elems (finalRGB s) r c"
      by blast
    have rp: "render_pixel rc i safe_i fi j s = Some (s\<lparr>lensedRGB := l, finalRGB := f\<rparr>)"
      unfolding render_pixel_def ro by (simp add: l(1) f(1))
    have nf: "lens_contains ?lens j i \<and> show_cc ?mode \<longrightarrow>
          footprint_pixel rc ?lens ?mode i j (elems l i j) (elems f i j)"
      using False by (auto simp: show_cc_def show_overlays_def)
    show ?thesis
      by (rule render_pixel_assemble [OF rp l(2,3) f(2,3) l(4) f(4) l(5) nf])
  next
    case True
    then have con: "lens_contains ?lens j i" and ov: "show_overlays ?mode" by simp_all
    let ?cc = "elems (cc_map ?lens) (i - snd (lens_origin ?lens)) (j - fst (lens_origin ?lens))"
    let ?ca = "elems (caustic_map ?lens) (i - snd (lens_origin ?lens)) (j - fst (lens_origin ?lens))"
    from render_overlays_footprint [OF con ov w(3,6,7,8) fin, of rc]
    obtain f1 where f1: "rows f1 = rows (finalRGB s)" "cols f1 = cols (finalRGB s)"
      "\<forall>r c. (r, c) \<noteq> (i, j) \<longrightarrow> elems f1 r c = elems (finalRGB s) r c"
      "if show_cc ?mode \<and> ?cc = 255 \<and> \<not> rc
         then render_overlays rc ?lens ?mode i j (finalRGB s) = Some (Continue f1)
              \<and> elems f1 i j = (255, 255, 255)
         else if show_cc ?mode \<and> ?ca > 0
         then elems f1 i j = (0, 0, 255)
              \<and> render_overlays rc ?lens ?mode i j (finalRGB s) =
                   Some (if rc then Proceed f1 (overlay_total ?lens ?mode i j) True else Continue f1)
         else f1 = finalRGB s
              \<and> render_overlays rc ?lens ?mode i j (finalRGB s) =
                   Some (Proceed (finalRGB s) (overlay_total ?lens ?mode i j) False)"
      by blast
    note fp = footprint_pixel_cases [of rc ?lens ?mode i j]
    consider (white) "show_cc ?mode \<and> ?cc = 255 \<and> \<not> rc"
      | (red) "\<not> (show_cc ?mode \<and> ?cc = 255 \<and> \<not> rc)" "show_cc ?mode \<and> ?ca > 0"
      | (sum) "\<not> (show_cc ?mode \<and> ?cc = 255 \<and> \<not> rc)" "\<not> (show_cc ?mode \<and> ?ca > 0)"
      by blast
    then show ?thesis
    proof cases
      case white
      from f1(4) white have ro: "render_overlays rc ?lens ?mode i j (finalRGB s) = Some (Continue f1)"
        and v: "elems f1 i j = (255, 255, 255)" by simp_all
      have rp: "render_pixel rc i safe_i fi j s = Some (s\<lparr>lensedRGB := lensedRGB s, finalRGB := f1\<rparr>)"
        unfolding render_pixel_def ro by simp
      have px: "lens_contains ?lens j i \<and> show_cc ?mode \<longrightarrow>
          footprint_pixel rc ?lens ?mode i j (elems (lensedRGB s) i j) (elems f1 i j)"
        unfolding fp using white v by simp
      have nrc: "\<not> rc \<longrightarrow> lensedRGB s = lensedRGB s" by simp
      show ?thesis
        by (rule render_pixel_assemble [OF rp refl refl f1(1,2) same f1(3) nrc px])
    next
      case red
      from f1(4) red have ro: "render_overlays rc ?lens ?mode i j (finalRGB s) =
          Some (if rc then Proceed f1 (overlay_total ?lens ?mode i j) True else Continue f1)"
        and v: "elems f1 i j = (0, 0, 255)" by simp_all
      have rp: "render_pixel rc i safe_i fi j s = Some (s\<lparr>lensedRGB := l, finalRGB := f1\<rparr>)"
      proof (cases rc)
        case True
        with l(1) have "raytrace_source ?lens (scr_src s) i safe_i fi j (lensedRGB s) = Some l"
          by simp
        with True show ?thesis
          unfolding render_pixel_def ro by simp
      next
        case False
        with l(5) have "l = lensedRGB s" by simp
        with False show ?thesis
          unfolding render_pixel_def ro by simp
      qed
      have px: "lens_contains ?lens j i \<and> show_cc ?mode \<longrightarrow>
          footprint_pixel rc ?lens ?mode i j (elems l i j) (elems f1 i j)"
        unfolding fp using red v by auto
      show ?thesis
        by (rule render_pixel_assemble [OF rp l(2,3) f1(1,2) l(4) f1(3) l(5) px])
    next
      case sum
      from f1(4) sum have ro: "render_overlays rc ?lens ?mode i j (finalRGB s) =
          Some (Proceed (finalRGB s) (overlay_total ?lens ?mode i j) False)"
        by simp
      from composite_pixel_effect [OF lin' fin, of "overlay_total ?lens ?mode i j"] obtain f where
        f: "composite_pixel l (finalRGB s) i j (overlay_total ?lens ?mode i j) = Some f"
          "rows f = rows (finalRGB s)" "cols f = cols (finalRGB s)"
          "saturated_sum (elems l i j) (overlay_total ?lens ?mode i j) (elems f i j)"
          "\<forall>r c. (r, c) \<noteq> (i, j) \<longrightarrow> elems f r c = elems (finalRGB s) r c"
        by blast
      have rp: "render_pixel rc i safe_i fi j s = Some (s\<lparr>lensedRGB := l, finalRGB := f\<rparr>)"
        unfolding render_pixel_def ro by (simp add: l(1) f(1))
      have px: "lens_contains ?lens j i \<and> show_cc ?mode \<longrightarrow>
          footprint_pixel rc ?lens ?mode i j (elems l i j) (elems f i j)"
        unfolding fp using sum f(4) by auto
      show ?thesis
        by (rule render_pixel_assemble [OF rp l(2,3) f(2,3) l(4) f(5) l(5) px])
    qed
  qed
qed

lemma render_row_effect:
  assumes wf: "screen_wf s" and i: "0 \<le> i" "i < rows (finalRGB s)"
  shows "\<exists>l f. render_row rc i s = Some (s\<lparr>lensedRGB := l, finalRGB := f\<rparr>)
     \<and> rows l = rows (lensedRGB s) \<and> cols l = cols (lensedRGB s)
     \<and> rows f = rows (finalRGB s) \<and> cols f = cols (finalRGB s)
     \<and> (\<forall>r c. r \<noteq> i \<longrightarrow> elems l r c = elems (lensedRGB s) r c)
     \<and> (\<forall>r c. r \<noteq> i \<longrightarrow> elems f r c = elems (finalRGB s) r c)
     \<and> (\<not> rc \<longrightarrow> l = lensedRGB s)
     \<and> (\<forall>j. 0 \<le> j \<and> j < max_w s \<and> lens_contains (scr_lens s) j i \<and> show_cc (overlay_mode s) \<longrightarrow>
            footprint_pixel rc (scr_lens s) (overlay_mode s) i j (elems l i j) (elems f i j))"
proof -
  note w = screen_wf_fields [OF wf]
  define fs where "fs = (if rc
      then relocate_and_compute_exp_falloff (i - snd (lens_origin (scr_lens s))) (lens_h (scr_lens s))
             (real_of_int (lens_h (scr_lens s)) * (1 / 2)) (real_of_int (lens_h (scr_lens s)) - 1)
      else (1, 0))"
  have si: "0 \<le> snd fs" "snd fs \<le> lens_h (scr_lens s) - 1"
    unfolding fs_def using falloff_safe_range [OF w(2)] w(2) by simp_all
  define P where "P k t \<longleftrightarrow> (\<exists>l f. t = s\<lparr>lensedRGB := l, finalRGB := f\<rparr>
     \<and> rows l = rows (lensedRGB s) \<and> cols l = cols (lensedRGB s)
     \<and> rows f = rows (finalRGB s) \<and> cols f = cols (finalRGB s)
     \<and> (\<forall>r c. \<not> (r = i \<and> 0 \<le> c \<and> c < k) \<longrightarrow> elems l r c = elems (lensedRGB s) r c)
     \<and> (\<forall>r c. \<not> (r = i \<and> 0 \<le> c \<and> c < k) \<longrightarrow> elems f r c = elems (finalRGB s) r c)
     \<and> (\<not> rc \<longrightarrow> l = lensedRGB s)
     \<and> (\<forall>j. 0 \<le> j \<and> j < k \<and> lens_contains (scr_lens s) j i \<and> show_cc (overlay_mode s) \<longrightarrow>
            footprint_pixel rc (scr_lens s) (overlay_mode s) i j (elems l i j) (elems f i j)))"
    for k and t :: screenT
  have "\<exists>t. for_loop 0 (max_w s) (render_pixel rc i (snd fs) (fst fs)) s = Some t \<and> P (max_w s) t"
  proof (rule for_loop_invariant)
    show "0 \<le> max_w s" by (rule w(10))
    show "P 0 s"
      unfolding P_def
      by (rule exI [of _ "lensedRGB s"], rule exI [of _ "finalRGB s"]) auto
    fix k t assume k: "0 \<le> k" "k < max_w s" and p: "P k t"
    from p obtain l f where t: "t = s\<lparr>lensedRGB := l, finalRGB := f\<rparr>"
      and d: "rows l = rows (lensedRGB s)" "cols l = cols (lensedRGB s)"
        "rows f = rows (finalRGB s)" "cols f = cols (finalRGB s)"
      and fl: "\<forall>r c. \<not> (r = i \<and> 0 \<le> c \<and> c < k) \<longrightarrow> elems l r c = elems (lensedRGB s) r c"
      and ff: "\<forall>r c. \<not> (r = i \<and> 0 \<le> c \<and> c < k) \<longrightarrow> elems f r c = elems (finalRGB s) r c"
      and nr: "\<not> rc \<longrightarrow> l = lensedRGB s"
      and px: "\<forall>j. 0 \<le> j \<and> j < k \<and> lens_contains (scr_lens s) j i \<and> show_cc (overlay_mode s) \<longrightarrow>
            footprint_pixel rc (scr_lens s) (overlay_mode s) i j (elems l i j) (elems f i j)"
      unfolding P_def by blast
    have wt: "screen_wf t"
      unfolding t by (rule screen_wf_buffers [OF wf d])
    have tf: "scr_lens t = scr_lens s" "overlay_mode t = overlay_mode s"
      "lensedRGB t = l" "finalRGB t = f"
      "\<And>l' f'. t\<lparr>lensedRGB := l', finalRGB := f'\<rparr> = s\<lparr>lensedRGB := l', finalRGB := f'\<rparr>"
      by (simp_all add: t)
    have fin: "in_range (finalRGB t) i k"
      using i k d(3,4) w(12) by (simp add: in_range_def tf(4))
    have si': "0 \<le> snd fs" "snd fs \<le> lens_h (scr_lens t) - 1"
      using si by (simp_all add: tf(1))
    from render_pixel_effect [OF wt fin si', of rc "fst fs", unfolded tf]
    obtain l' f' where r: "render_pixel rc i (snd fs) (fst fs) k t = Some (s\<lparr>lensedRGB := l', finalRGB := f'\<rparr>)"
      and d': "rows l' = rows l" "cols l' = cols l" "rows f' = rows f" "cols f' = cols f"
      and fl': "\<forall>r c. (r, c) \<noteq> (i, k) \<longrightarrow> elems l' r c = elems l r c"
      and ff': "\<forall>r c. (r, c) \<noteq> (i, k) \<longrightarrow> elems f' r c = elems f r c"
      and nr': "\<not> rc \<longrightarrow> l' = l"
      and px': "lens_contains (scr_lens s) k i \<and> show_cc (overlay_mode s) \<longrightarrow>
          footprint_pixel rc (scr_lens s) (overlay_mode s) i k (elems l' i k) (elems f' i k)"
      by blast
    have "P (k + 1) (s\<lparr>lensedRGB := l', finalRGB := f'\<rparr>)"
      unfolding P_def
    proof (rule exI [of _ l'], rule exI [of _ f'], intro conjI)
      show "s\<lparr>lensedRGB := l', finalRGB := f'\<rparr> = s\<lparr>lensedRGB := l', finalRGB := f'\<rparr>" by simp
      show "rows l' = rows (lensedRGB s)" "cols l' = cols (lensedRGB s)"
        "rows f' = rows (finalRGB s)" "cols f' = cols (finalRGB s)"
        using d d' by simp_all
      show "\<forall>r c. \<not> (r = i \<and> 0 \<le> c \<and> c < k + 1) \<longrightarrow> elems l' r c = elems (lensedRGB s) r c"
        using fl fl' k(1) by auto
      show "\<forall>r c. \<not> (r = i \<and> 0 \<le> c \<and> c < k + 1) \<longrightarrow> elems f' r c = elems (finalRGB s) r c"
        using ff ff' k(1) by auto
      show "\<not> rc \<longrightarrow> l' = lensedRGB s" using nr nr' by simp
      show "\<forall>j. 0 \<le> j \<and> j < k + 1 \<and> lens_contains (scr_lens s) j i \<and> show_cc (overlay_mode s) \<longrightarrow>
            footprint_pixel rc (scr_lens s) (overlay_mode s) i j (elems l' i j) (elems f' i j)"
      proof (intro allI impI)
        fix j assume j: "0 \<le> j \<and> j < k + 1 \<and> lens_contains (scr_lens s) j i \<and> show_cc (overlay_mode s)"
        show "footprint_pixel rc (scr_lens s) (overlay_mode s) i j (elems l' i j) (elems f' i j)"
        proof (cases "j = k")
          case True
          with j px' show ?thesis by simp
        next
          case False
          with j have "j < k" by simp
          moreover from False have "elems l' i j = elems l i j" "elems f' i j = elems f i j"
            using fl' ff' by simp_all
          ultimately show ?thesis using px j by simp
        qed
      qed
    qed
    with r show "\<exists>t'. render_pixel rc i (snd fs) (fst fs) k t = Some t' \<and> P (k + 1) t'" by blast
  qed
  then obtain t where t: "for_loop 0 (max_w s) (render_pixel rc i (snd fs) (fst fs)) s = Some t"
    and p: "P (max_w s) t" by blast
  have rr: "render_row rc i s = Some t"
    unfolding render_row_def Let_def fs_def [symmetric] using t by (simp add: case_prod_beta)
  from p obtain l f where tt: "t = s\<lparr>lensedRGB := l, finalRGB := f\<rparr>"
      and d: "rows l = rows (lensedRGB s)" "cols l = cols (lensedRGB s)"
        "rows f = rows (finalRGB s)" "cols f = cols (finalRGB s)"
      and fl: "\<forall>r c. \<not> (r = i \<and> 0 \<le> c \<and> c < max_w s) \<longrightarrow> elems l r c = elems (lensedRGB s) r c"
      and ff: "\<forall>r c. \<not> (r = i \<and> 0 \<le> c \<and> c < max_w s) \<longrightarrow> elems f r c = elems (finalRGB s) r c"
      and nr: "\<not> rc \<longrightarrow> l = lensedRGB s"
      and px: "\<forall>j. 0 \<le> j \<and> j < max_w s \<and> lens_contains (scr_lens s) j i \<and> show_cc (overlay_mode s) \<longrightarrow>
            footprint_pixel rc (scr_lens s) (overlay_mode s) i j (elems l i j) (elems f i j)"
    unfolding P_def by blast
  show ?thesis
  proof (rule exI [of _ l], rule exI [of _ f], intro conjI)
    show "render_row rc i s = Some (s\<lparr>lensedRGB := l, finalRGB := f\<rparr>)"
      using rr tt by simp
    show "rows l = rows (lensedRGB s)" "cols l = cols (lensedRGB s)"
      "rows f = rows (finalRGB s)" "cols f = cols (finalRGB s)" by fact+
    show "\<forall>r c. r \<noteq> i \<longrightarrow> elems l r c = elems (lensedRGB s) r c" using fl by simp
    show "\<forall>r c. r \<noteq> i \<longrightarrow> elems f r c = elems (finalRGB s) r c" using ff by simp
    show "\<not> rc \<longrightarrow> l = lensedRGB s" by fact
    show "\<forall>j. 0 \<le> j \<and> j < max_w s \<and> lens_contains (scr_lens s) j i \<and> show_cc (overlay_mode s) \<longrightarrow>
            footprint_pixel rc (scr_lens s) (overlay_mode s) i j (elems l i j) (elems f i j)" by fact
  qed
qed

lemma Parallel_renderer_effect:
  assumes wf: "screen_wf s" and rg: "0 \<le> range_start" "range_start \<le> range_end"
    "range_end \<le> rows (finalRGB s)"
  shows "\<exists>l f. Parallel_renderer rc s range_start range_end = Some (s\<lparr>lensedRGB := l, finalRGB := f\<rparr>)
     \<and> rows l = rows (lensedRGB s) \<and> cols l = cols (lensedRGB s)
     \<and> rows f = rows (finalRGB s) \<and> cols f = cols (finalRGB s)
     \<and> (\<not> rc \<longrightarrow> l = lensedRGB s)
     \<and> (\<forall>i j. range_start \<le> i \<and> i < range_end \<and> 0 \<le> j \<and> j < max_w s
              \<and> lens_contains (scr_lens s) j i \<and> show_cc (overlay_mode s) \<longrightarrow>
            footprint_pixel rc (scr_lens s) (overlay_mode s) i j (elems l i j) (elems f i j))"
proof -
  define Q where "Q k t \<longleftrightarrow> (\<exists>l f. t = s\<lparr>lensedRGB := l, finalRGB := f\<rparr>
     \<and> rows l = rows (lensedRGB s) \<and> cols l = cols (lensedRGB s)
     \<and> rows f = rows (finalRGB s) \<and> cols f = cols (finalRGB s)
     \<and> (\<not> rc \<longrightarrow> l = lensedRGB s)
     \<and> (\<forall>i j. range_start \<le> i \<and> i < k \<and> 0 \<le> j \<and> j < max_w s
              \<and> lens_contains (scr_lens s) j i \<and> show_cc (overlay_mode s) \<longrightarrow>
            footprint_pixel rc (scr_lens s) (overlay_mode s) i j (elems l i j) (elems f i j)))"
    for k and t :: screenT
  have "\<exists>t. for_loop range_start range_end (render_row rc) s = Some t \<and> Q range_end t"
  proof (rule for_loop_invariant)
    show "range_start \<le> range_end" by (rule rg(2))
    show "Q range_start s"
      unfolding Q_def
      by (rule exI [of _ "lensedRGB s"], rule exI [of _ "finalRGB s"]) auto
    fix k t assume k: "range_start \<le> k" "k < range_end" and q: "Q k t"
    from q obtain l f where t: "t = s\<lparr>lensedRGB := l, finalRGB := f\<rparr>"
      and d: "rows l = rows (lensedRGB s)" "cols l = cols (lensedRGB s)"
        "rows f = rows (finalRGB s)" "cols f = cols (finalRGB s)"
      and nr: "\<not> rc \<longrightarrow> l = lensedRGB s"
      and px: "\<forall>i j. range_start \<le> i \<and> i < k \<and> 0 \<le> j \<and> j < max_w s
              \<and> lens_contains (scr_lens s) j i \<and> show_cc (overlay_mode s) \<longrightarrow>
            footprint_pixel rc (scr_lens s) (overlay_mode s) i j (elems l i j) (elems f i j)"
      unfolding Q_def by blast
    have wt: "screen_wf t"
      unfolding t by (rule screen_wf_buffers [OF wf d])
    have tf: "scr_lens t = scr_lens s" "overlay_mode t = overlay_mode s" "max_w t = max_w s"
      "lensedRGB t = l" "finalRGB t = f"
      "\<And>l' f'. t\<lparr>lensedRGB := l', finalRGB := f'\<rparr> = s\<lparr>lensedRGB := l', finalRGB := f'\<rparr>"
      by (simp_all add: t)
    have ki: "0 \<le> k" "k < rows (finalRGB t)"
      using k rg d(3) by (simp_all add: tf(5))
    from render_row_effect [OF wt ki, of rc, unfolded tf]
    obtain l' f' where r: "render_row rc k t = Some (s\<lparr>lensedRGB := l', finalRGB := f'\<rparr>)"
      and d': "rows l' = rows l" "cols l' = cols l" "rows f' = rows f" "cols f' = cols f"
      and fl': "\<forall>r c. r \<noteq> k \<longrightarrow> elems l' r c = elems l r c"
      and ff': "\<forall>r c. r \<noteq> k \<longrightarrow> elems f' r c = elems f r c"
      and nr': "\<not> rc \<longrightarrow> l' = l"
      and px': "\<forall>j. 0 \<le> j \<and> j < max_w s \<and> lens_contains (scr_lens s) j k \<and> show_cc (overlay_mode s) \<longrightarrow>
            footprint_pixel rc (scr_lens s) (overlay_mode s) k j (elems l' k j) (elems f' k j)"
      by blast
    have "Q (k + 1) (s\<lparr>lensedRGB := l', finalRGB := f'\<rparr>)"
      unfolding Q_def
    proof (rule exI [of _ l'], rule exI [of _ f'], intro conjI)
      show "s\<lparr>lensedRGB := l', finalRGB := f'\<rparr> = s\<lparr>lensedRGB := l', finalRGB := f'\<rparr>" by simp
      show "rows l' = rows (lensedRGB s)" "cols l' = cols (lensedRGB s)"
        "rows f' = rows (finalRGB s)" "cols f' = cols (finalRGB s)"
        using d d' by simp_all
      show "\<not> rc \<longrightarrow> l' = lensedRGB s" using nr nr' by simp
      show "\<forall>i j. range_start \<le> i \<and> i < k + 1 \<and> 0 \<le> j \<and> j < max_w s
              \<and> lens_contains (scr_lens s) j i \<and> show_cc (overlay_mode s) \<longrightarrow>
            footprint_pixel rc (scr_lens s) (overlay_mode s) i j (elems l' i j) (elems f' i j)"
      proof (intro allI impI)
        fix i j assume j: "range_start \<le> i \<and> i < k + 1 \<and> 0 \<le> j \<and> j < max_w s
              \<and> lens_contains (scr_lens s) j i \<and> show_cc (overlay_mode s)"
        show "footprint_pixel rc (scr_lens s) (overlay_mode s) i j (elems l' i j) (elems f' i j)"
        proof (cases "i = k")
          case True
          with j px' show ?thesis by simp
        next
          case False
          with j have "i < k" by simp
          moreover from False have "elems l' i j = elems l i j" "elems f' i j = elems f i j"
            using fl' ff' by simp_all
          ultimately show ?thesis using px j by simp
        qed
      qed
    qed
    with r show "\<exists>t'. render_row rc k t = Some t' \<and> Q (k + 1) t'" by blast
  qed
  then show ?thesis
    unfolding Q_def Parallel_renderer_def by blast
qed

lemma white_is_saturated:
  assumes "show_cc mode"
    and "elems (cc_map lens) (i - snd (lens_origin lens)) (j - fst (lens_origin lens)) = 255"
  shows "saturated_sum lp (overlay_total lens mode i j) (255, 255, 255)"
proof -
  have "255 \<le> overlay_total lens mode i j"
    using assms by (simp add: overlay_total_def Let_def)
  then show ?thesis by (simp add: saturated_sum_def)
qed

text \<open>
  C4, as amended. On a well-formed screen the render loop over the rows of a range returns,
  and changes the two buffers only. An overlay-only redraw leaves the lensed buffer as it
  was. For every pixel \<open>(i, j)\<close> of the range inside the lens footprint, with the overlays
  and the critical-curve layer on: if its critical-curve entry is \<open>255\<close> and the redraw is
  overlay-only, the final pixel is pure white, which is also the lensed value plus the
  overlay accumulator, at most \<open>255\<close> per channel; otherwise, if its caustic-map entry is
  positive, the final pixel is pure red, BGR \<open>(0, 0, 255)\<close>; otherwise each channel of the
  final pixel is the lensed value plus the overlay accumulator, at most \<open>255\<close>.
\<close>

theorem render_composite:
  "screen_wf s \<and> 0 \<le> range_start \<and> range_start \<le> range_end \<and> range_end \<le> rows (finalRGB s) \<longrightarrow>
     (\<exists>l f. Parallel_renderer rc s range_start range_end = Some (s\<lparr>lensedRGB := l, finalRGB := f\<rparr>)
        \<and> (\<not> rc \<longrightarrow> l = lensedRGB s)
        \<and> (\<forall>i j. range_start \<le> i \<and> i < range_end \<and> 0 \<le> j \<and> j < max_w s
                 \<and> lens_contains (scr_lens s) j i \<and> show_cc (overlay_mode s) \<longrightarrow>
              (if elems (cc_map (scr_lens s)) (i - snd (lens_origin (scr_lens s)))
                    (j - fst (lens_origin (scr_lens s))) = 255 \<and> \<not> rc
               then elems f i j = (255, 255, 255)
                    \<and> saturated_sum (elems l i j) (overlay_total (scr_lens s) (overlay_mode s) i j) (elems f i j)
               else if elems (caustic_map (scr_lens s)) (i - snd (lens_origin (scr_lens s)))
                         (j - fst (lens_origin (scr_lens s))) > 0
               then elems f i j = (0, 0, 255)
               else saturated_sum (elems l i j) (overlay_total (scr_lens s) (overlay_mode s) i j) (elems f i j))))"
proof (intro impI)
  assume a: "screen_wf s \<and> 0 \<le> range_start \<and> range_start \<le> range_end \<and> range_end \<le> rows (finalRGB s)"
  then have wf: "screen_wf s" and rg: "0 \<le> range_start" "range_start \<le> range_end"
    "range_end \<le> rows (finalRGB s)" by simp_all
  from Parallel_renderer_effect [OF wf rg, of rc] obtain l f where
    r: "Parallel_renderer rc s range_start range_end = Some (s\<lparr>lensedRGB := l, finalRGB := f\<rparr>)"
    and nr: "\<not> rc \<longrightarrow> l = lensedRGB s"
    and px: "\<forall>i j. range_start \<le> i \<and> i < range_end \<and> 0 \<le> j \<and> j < max_w s
              \<and> lens_contains (scr_lens s) j i \<and> show_cc (overlay_mode s) \<longrightarrow>
            footprint_pixel rc (scr_lens s) (overlay_mode s) i j (elems l i j) (elems f i j)"
    by blast
  show "\<exists>l f. Parallel_renderer rc s range_start range_end = Some (s\<lparr>lensedRGB := l, finalRGB := f\<rparr>)
        \<and> (\<not> rc \<longrightarrow> l = lensedRGB s)
        \<and> (\<forall>i j. range_start \<le> i \<and> i < range_end \<and> 0 \<le> j \<and> j < max_w s
                 \<and> lens_contains (scr_lens s) j i \<and> show_cc (overlay_mode s) \<longrightarrow>
              (if elems (cc_map (scr_lens s)) (i - snd (lens_origin (scr_lens s)))
                    (j - fst (lens_origin (scr_lens s))) = 255 \<and> \<not> rc
               then elems f i j = (255, 255, 255)
                    \<and> saturated_sum (elems l i j) (overlay_total (scr_lens s) (overlay_mode s) i j) (elems f i j)
               else if elems (caustic_map (scr_lens s)) (i - snd (lens_origin (scr_lens s)))
                         (j - fst (lens_origin (scr_lens s))) > 0
               then elems f i j = (0, 0, 255)
               else saturated_sum (elems l i j) (overlay_total (scr_lens s) (overlay_mode s) i j) (elems f i j)))"
  proof (rule exI [of _ l], rule exI [of _ f], intro conjI allI impI)
    show "Parallel_renderer rc s range_start range_end = Some (s\<lparr>lensedRGB := l, finalRGB := f\<rparr>)"
      by (rule r)
    show "l = lensedRGB s" if "\<not> rc" using nr that by simp
    fix i j assume h: "range_start \<le> i \<and> i < range_end \<and> 0 \<le> j \<and> j < max_w s
                 \<and> lens_contains (scr_lens s) j i \<and> show_cc (overlay_mode s)"
    with px have fp: "footprint_pixel rc (scr_lens s) (overlay_mode s) i j (elems l i j) (elems f i j)"
      by blast
    from h have sc: "show_cc (overlay_mode s)" by simp
    show "if elems (cc_map (scr_lens s)) (i - snd (lens_origin (scr_lens s)))
                    (j - fst (lens_origin (scr_lens s))) = 255 \<and> \<not> rc
               then elems f i j = (255, 255, 255)
                    \<and> saturated_sum (elems l i j) (overlay_total (scr_lens s) (overlay_mode s) i j) (elems f i j)
               else if elems (caustic_map (scr_lens s)) (i - snd (lens_origin (scr_lens s)))
                         (j - fst (lens_origin (scr_lens s))) > 0
               then elems f i j = (0, 0, 255)
               else saturated_sum (elems l i j) (overlay_total (scr_lens s) (overlay_mode s) i j) (elems f i j)"
      using fp white_is_saturated [OF sc, of "scr_lens s" i j "elems l i j"]
      unfolding footprint_pixel_cases by (auto split: if_splits)
  qed
qed

lemma screen_demo_fields:
  "scr_lens screen_demo = lens_overlay" "overlay_mode screen_demo = 4" "max_w screen_demo = 3"
  "lensedRGB screen_demo = mat_const 3 3 (250, 100, 0)" "rows (finalRGB screen_demo) = 3"
  by (simp_all add: screen_demo_def mat_const_def)

lemma lens_overlay_fields:
  "lens_origin lens_overlay = (0, 0)"
  "elems (cc_map lens_overlay) r c = (if r = 1 \<and> c = 1 then 255 else 0)"
  "elems (caustic_map lens_overlay) r c = (if (r = 1 \<and> c = 1) \<or> (r = 2 \<and> c = 2) then 255 else 0)"
  "elems (kappa8u lens_overlay) r c = 10"
  "lens_contains lens_overlay j i \<longleftrightarrow> 0 < j \<and> j < 3 \<and> 0 < i \<and> i < 3"
  by (auto simp: lens_overlay_def mat_const_def lens_contains_def)

lemma screen_demo_wf: "screen_wf screen_demo"
  unfolding screen_wf_def Let_def
  by (simp add: screen_demo_def lens_overlay_def lens_grid_def mat_const_def source_demo_wf)

text \<open>
  C4 as stated fails where a caustic pixel lies under the critical curve: in an
  overlay-only redraw the pixel \<open>(1, 1)\<close> of the example screen, whose caustic-map entry is
  positive and whose critical-curve entry is \<open>255\<close>, is written pure white and the loop
  goes on to the next pixel; it is not written red.
\<close>

theorem caustic_under_critical_curve_counterexample:
  "\<exists>l f. Parallel_renderer False screen_demo 0 3 = Some (screen_demo\<lparr>lensedRGB := l, finalRGB := f\<rparr>)
     \<and> lens_contains (scr_lens screen_demo) 1 1 \<and> show_cc (overlay_mode screen_demo)
     \<and> 0 < elems (caustic_map (scr_lens screen_demo)) 1 1
     \<and> elems f 1 1 = (255, 255, 255) \<and> elems f 1 1 \<noteq> (0, 0, 255)"
proof -
  have rg: "(0::int) \<le> 0" "(0::int) \<le> 3" "3 \<le> rows (finalRGB screen_demo)"
    by (simp_all add: screen_demo_fields)
  from Parallel_renderer_effect [OF screen_demo_wf rg, of False] obtain l f where
    r: "Parallel_renderer False screen_demo 0 3 = Some (screen_demo\<lparr>lensedRGB := l, finalRGB := f\<rparr>)"
    and px: "\<forall>i j. 0 \<le> i \<and> i < 3 \<and> 0 \<le> j \<and> j < max_w screen_demo
              \<and> lens_contains (scr_lens screen_demo) j i \<and> show_cc (overlay_mode screen_demo) \<longrightarrow>
            footprint_pixel False (scr_lens screen_demo) (overlay_mode screen_demo) i j
              (elems l i j) (elems f i j)"
    by blast
  have c: "lens_contains (scr_lens screen_demo) 1 1" "show_cc (overlay_mode screen_demo)"
    "0 < elems (caustic_map (scr_lens screen_demo)) 1 1"
    by (simp_all add: screen_demo_fields lens_overlay_fields show_cc_def)
  have "footprint_pixel False (scr_lens screen_demo) (overlay_mode screen_demo) 1 1
          (elems l 1 1) (elems f 1 1)"
    using px c(1,2) by (simp add: screen_demo_fields)
  then have e: "elems f 1 1 = (255, 255, 255)"
    by (simp add: footprint_pixel_cases screen_demo_fields lens_overlay_fields)
  show ?thesis
    by (insert r c e, rule exI [of _ l], rule exI [of _ f], simp)
qed

text \<open>
  An overlay-only redraw of the 3 by 3 example screen: white at \<open>(1, 1)\<close>, red at
  \<open>(2, 2)\<close>, and \<open>(250, 100, 0) + 10\<close>, at most \<open>255\<close> per channel, at \<open>(1, 2)\<close>.
\<close>

theorem render_composite_witness:
  "\<exists>f. Parallel_renderer False screen_demo 0 3
          = Some (screen_demo\<lparr>lensedRGB := lensedRGB screen_demo, finalRGB := f\<rparr>)
     \<and> elems f 1 1 = (255, 255, 255)
     \<and> elems f 2 2 = (0, 0, 255)
     \<and> unat (fst (elems f 1 2)) = 255 \<and> unat (fst (snd (elems f 1 2))) = 110
     \<and> unat (snd (snd (elems f 1 2))) = 10"
proof -
  have h: "screen_wf screen_demo \<and> (0::int) \<le> 0 \<and> (0::int) \<le> 3 \<and> 3 \<le> rows (finalRGB screen_demo)"
    using screen_demo_wf by (simp add: screen_demo_fields)
  from render_composite [of screen_demo 0 3 False] h obtain l f where
    r: "Parallel_renderer False screen_demo 0 3 = Some (screen_demo\<lparr>lensedRGB := l, finalRGB := f\<rparr>)"
    and nr: "l = lensedRGB screen_demo"
    and px: "\<forall>i j. 0 \<le> i \<and> i < 3 \<and> 0 \<le> j \<and> j < max_w screen_demo
                 \<and> lens_contains (scr_lens screen_demo) j i \<and> show_cc (overlay_mode screen_demo) \<longrightarrow>
              (if elems (cc_map (scr_lens screen_demo)) (i - snd (lens_origin (scr_lens screen_demo)))
                    (j - fst (lens_origin (scr_lens screen_demo))) = 255 \<and> \<not> False
               then elems f i j = (255, 255, 255)
                    \<and> saturated_sum (elems l i j)
                         (overlay_total (scr_lens screen_demo) (overlay_mode screen_demo) i j) (elems f i j)
               else if elems (caustic_map (scr_lens screen_demo)) (i - snd (lens_origin (scr_lens screen_demo)))
                         (j - fst (lens_origin (scr_lens screen_demo))) > 0
               then elems f i j = (0, 0, 255)
               else saturated_sum (elems l i j)
                      (overlay_total (scr_lens screen_demo) (overlay_mode screen_demo) i j) (elems f i j))"
    by blast
  have c: "\<And>i j. 0 < i \<Longrightarrow> i < 3 \<Longrightarrow> 0 < j \<Longrightarrow> j < 3 \<Longrightarrow>
      0 \<le> i \<and> i < 3 \<and> 0 \<le> j \<and> j < max_w screen_demo
        \<and> lens_contains (scr_lens screen_demo) j i \<and> show_cc (overlay_mode screen_demo)"
    by (simp add: screen_demo_fields lens_overlay_fields show_cc_def)
  have ot: "overlay_total lens_overlay 4 1 2 = 10"
    by (simp add: overlay_total_def Let_def lens_overlay_fields show_cc_def show_lens_def)
  have p11: "elems f 1 1 = (255, 255, 255)"
    using px [rule_format, of 1 1] c [of 1 1] by (simp add: screen_demo_fields lens_overlay_fields)
  have p22: "elems f 2 2 = (0, 0, 255)"
    using px [rule_format, of 2 2] c [of 2 2] by (simp add: screen_demo_fields lens_overlay_fields)
  have "saturated_sum (elems l 1 2) 10 (elems f 1 2)"
    using px [rule_format, of 1 2] c [of 1 2] by (simp add: screen_demo_fields lens_overlay_fields ot)
  then have p12: "unat (fst (elems f 1 2)) = 255" "unat (fst (snd (elems f 1 2))) = 110"
    "unat (snd (snd (elems f 1 2))) = 10"
    by (simp_all add: saturated_sum_def nr screen_demo_fields mat_const_def)
  show ?thesis
    by (insert r p11 p22 p12, unfold nr, rule exI [of _ f], simp)
qed

end
